theory Spec2Isabelle
  imports Complex_Main "HOL-Library.Multiset" "HOL-Library.Product_Lexorder"
begin

section \<open>PageCache (src/core/PageCache.cpp, PageCache.h)\<close>


datatype QImage = NullImage | Image (img_width: int) (img_height: int) (img_depth: int)

fun isNull :: "QImage \<Rightarrow> bool" where
  "isNull NullImage = True"
| "isNull (Image w h d) = False"

text \<open>
  \<open>CacheKey\<close>: the composite key of the header. Keys are compared with HOL equality; the
  \<open>qFuzzyCompare\<close> on the zoom level (a comparison of doubles) is modelled as exact equality
  of rationals.
\<close>

record CacheKey =
  documentId :: nat
  pageIndex :: int
  zoomLevel :: rat
  rotation :: int
  targetSize :: "int \<times> int"

record CachedItem =
  item_image :: QImage
  timestamp :: int
  accessCount :: int

text \<open>
  \<open>PageCache::Private\<close>. The \<open>QHash\<close> is an association list with distinct keys, in the
  iteration order of the hash table; a fresh key is appended. \<open>QQueue\<close> is a list whose head
  is dequeued next. \<open>emitted\<close> collects the arguments of the \<open>statisticsChanged\<close> signal.
\<close>

record PageCache =
  cacheMap :: "(CacheKey \<times> CachedItem) list"
  lruQueue :: "CacheKey list"
  maxSizeBytes :: int
  currentSizeBytes :: int
  emitted :: "(int \<times> nat) list"

definition PageCache_new :: PageCache where
  "PageCache_new = \<lparr>cacheMap = [], lruQueue = [], maxSizeBytes = 50 * 1024 * 1024,
     currentSizeBytes = 0, emitted = []\<rparr>"

fun calculateImageSizeBytes :: "QImage \<Rightarrow> int" where
  "calculateImageSizeBytes NullImage = 0"
| "calculateImageSizeBytes (Image w h d) = w * h * (d div 8)"

text \<open>\<open>QHash::erase\<close> / \<open>QHash::remove\<close> of a key, and \<open>QList::removeAll\<close>.\<close>

definition erase :: "'k \<Rightarrow> ('k \<times> 'v) list \<Rightarrow> ('k \<times> 'v) list" where
  "erase k xs = filter (\<lambda>p. fst p \<noteq> k) xs"

definition removeAll_q :: "'k \<Rightarrow> 'k list \<Rightarrow> 'k list" where
  "removeAll_q k q = filter (\<lambda>x. x \<noteq> k) q"

text \<open>Assignment through a \<open>QHash\<close> iterator: the entry keeps its place.\<close>

fun update_item :: "'k \<Rightarrow> ('v \<Rightarrow> 'v) \<Rightarrow> ('k \<times> 'v) list \<Rightarrow> ('k \<times> 'v) list" where
  "update_item k f [] = []"
| "update_item k f ((k', v) # xs) =
     (if k' = k then (k', f v) # xs else (k', v) # update_item k f xs)"

definition PageCache_contains :: "PageCache \<Rightarrow> CacheKey \<Rightarrow> bool" where
  "PageCache_contains s key = (map_of (cacheMap s) key \<noteq> None)"

definition removeItem :: "CacheKey \<Rightarrow> PageCache \<Rightarrow> PageCache" where
  "removeItem key s =
     (case map_of (cacheMap s) key of
        Some it \<Rightarrow> s\<lparr>currentSizeBytes := currentSizeBytes s - calculateImageSizeBytes (item_image it),
                    cacheMap := erase key (cacheMap s),
                    lruQueue := removeAll_q key (lruQueue s)\<rparr>
      | None \<Rightarrow> s)"

text \<open>
  \<open>PageCache::evictIfNecessary\<close>: the while loop, one recursive call per iteration. Every
  iteration dequeues, so the queue length is a measure.
\<close>

function evictIfNecessary :: "PageCache \<Rightarrow> PageCache" where
  "evictIfNecessary s =
     (if currentSizeBytes s > maxSizeBytes s \<and> lruQueue s \<noteq> [] then
        (let lruKey = hd (lruQueue s);
             s1 = s\<lparr>lruQueue := tl (lruQueue s)\<rparr>
         in evictIfNecessary (if PageCache_contains s1 lruKey then removeItem lruKey s1 else s1))
      else s)"
  by pat_completeness auto
termination
proof (relation "measure (\<lambda>s. length (lruQueue s))")
  show "wf (measure (\<lambda>s. length (lruQueue s)))" by simp
next
  fix s :: PageCache and x xa
  assume run: "maxSizeBytes s < currentSizeBytes s \<and> lruQueue s \<noteq> []"
    and x: "x = hd (lruQueue s)" and xa: "xa = s\<lparr>lruQueue := tl (lruQueue s)\<rparr>"
  have "length (removeAll_q x (tl (lruQueue s))) \<le> length (tl (lruQueue s))"
    unfolding removeAll_q_def by (rule length_filter_le)
  with xa have "length (lruQueue (if PageCache_contains xa x then removeItem x xa else xa))
      \<le> length (tl (lruQueue s))"
    by (simp add: removeItem_def del: length_tl split: option.splits)
  moreover have "length (tl (lruQueue s)) < length (lruQueue s)"
    using run by (cases "lruQueue s") auto
  ultimately show "(if PageCache_contains xa x then removeItem x xa else xa, s)
      \<in> measure (\<lambda>s. length (lruQueue s))"
    by simp
qed

text \<open>\<open>PageCache::get\<close>: the returned image (null when the key is absent) and the new state.\<close>

definition PageCache_get :: "int \<Rightarrow> CacheKey \<Rightarrow> PageCache \<Rightarrow> QImage \<times> PageCache" where
  "PageCache_get now key s =
     (case map_of (cacheMap s) key of
        Some it \<Rightarrow>
          (item_image it,
           s\<lparr>cacheMap := update_item key
                 (\<lambda>i. i\<lparr>accessCount := accessCount i + 1, timestamp := now\<rparr>) (cacheMap s),
             lruQueue := removeAll_q key (lruQueue s) @ [key]\<rparr>)
      | None \<Rightarrow> (NullImage, s))"

definition PageCache_put :: "int \<Rightarrow> CacheKey \<Rightarrow> QImage \<Rightarrow> PageCache \<Rightarrow> PageCache" where
  "PageCache_put now key img s =
     (let imageSize = calculateImageSizeBytes img in
      if imageSize = 0 then s
      else
        let s1 =
          (case map_of (cacheMap s) key of
             Some existing \<Rightarrow>
               (let oldSize = calculateImageSizeBytes (item_image existing) in
                s\<lparr>currentSizeBytes := currentSizeBytes s + (imageSize - oldSize),
                  cacheMap := update_item key
                    (\<lambda>i. i\<lparr>item_image := img, accessCount := 1, timestamp := now\<rparr>) (cacheMap s),
                  lruQueue := removeAll_q key (lruQueue s) @ [key]\<rparr>)
           | None \<Rightarrow>
               s\<lparr>cacheMap := cacheMap s @ [(key, \<lparr>item_image = img, timestamp = now, accessCount = 1\<rparr>)],
                 currentSizeBytes := currentSizeBytes s + imageSize,
                 lruQueue := lruQueue s @ [key]\<rparr>);
            s2 = evictIfNecessary s1
        in s2\<lparr>emitted := emitted s2 @ [(currentSizeBytes s2, length (cacheMap s2))]\<rparr>)"

definition PageCache_clear :: "PageCache \<Rightarrow> PageCache" where
  "PageCache_clear s = s\<lparr>cacheMap := [], lruQueue := [], currentSizeBytes := 0,
               emitted := emitted s @ [(0, 0)]\<rparr>"

definition PageCache_setMaxSizeBytes :: "int \<Rightarrow> PageCache \<Rightarrow> PageCache" where
  "PageCache_setMaxSizeBytes sz s = evictIfNecessary (s\<lparr>maxSizeBytes := sz\<rparr>)"

text \<open>
  \<open>PageCache::clearForDocument\<close>. The iterator walks the entries in table order; \<open>kept\<close>
  are the entries already passed, the third argument the entries from the iterator on.
  After \<open>it = erase(it)\<close> the iterator stands on the successor of the erased entry, and
  \<open>it.key()\<close> on the next line is the key of that successor: it is this key that is removed
  from the queue. When the erased entry was the last one the iterator is \<open>end()\<close> and
  \<open>it.key()\<close> has no defined value; the model reports that as a fault.
\<close>

datatype fault = EndIteratorDereferenced

fun clearLoop :: "nat \<Rightarrow> (CacheKey \<times> CachedItem) list \<Rightarrow> (CacheKey \<times> CachedItem) list
    \<Rightarrow> CacheKey list \<Rightarrow> int \<Rightarrow> fault + ((CacheKey \<times> CachedItem) list \<times> CacheKey list \<times> int)" where
  "clearLoop d kept [] q cur = Inr (kept, q, cur)"
| "clearLoop d kept ((k, v) # rest) q cur =
     (if documentId k = d then
        (case rest of
           [] \<Rightarrow> Inl EndIteratorDereferenced
         | (k', v') # rest' \<Rightarrow>
             clearLoop d kept rest (removeAll_q k' q) (cur - calculateImageSizeBytes (item_image v)))
      else clearLoop d (kept @ [(k, v)]) rest q cur)"

definition PageCache_clearForDocument :: "nat \<Rightarrow> PageCache \<Rightarrow> fault + PageCache" where
  "PageCache_clearForDocument d s =
     (case clearLoop d [] (cacheMap s) (lruQueue s) (currentSizeBytes s) of
        Inl f \<Rightarrow> Inl f
      | Inr (m, q, cur) \<Rightarrow>
          Inr (s\<lparr>cacheMap := m, lruQueue := q, currentSizeBytes := cur,
                 emitted := emitted s @ [(cur, length m)]\<rparr>))"

declare evictIfNecessary.simps [simp del]

text \<open>
  The scenario of the specification: a cache whose ceiling has been set to 1,000,000 bytes,
  and a sequence of \<open>put\<close> calls, each with the clock reading it saw.
\<close>

definition scenario_start :: PageCache where
  "scenario_start = PageCache_setMaxSizeBytes 1000000 PageCache_new"

definition put_sequence :: "(int \<times> CacheKey \<times> QImage) list \<Rightarrow> PageCache \<Rightarrow> PageCache" where
  "put_sequence ops s = foldl (\<lambda>s' (t, k, i). PageCache_put t k i s') s ops"

definition new_item :: "QImage \<Rightarrow> int \<Rightarrow> CachedItem" where
  "new_item img t = \<lparr>item_image = img, timestamp = t, accessCount = 1\<rparr>"

definition page_key :: "nat \<Rightarrow> int \<Rightarrow> CacheKey" where
  "page_key doc n = \<lparr>documentId = doc, pageIndex = n, zoomLevel = 1, rotation = 0,
     targetSize = (400, 250)\<rparr>"

definition image400k :: QImage where
  "image400k = Image 400 250 32"


text \<open>
  The bookkeeping invariant of \<open>PageCache\<close>: keys are unique, every stored key stands in the
  LRU queue, the tracked total is the sum of the stored images' sizes, and stored images
  have a positive size (\<open>put\<close> refuses the others).
\<close>

definition total_size :: "(CacheKey \<times> CachedItem) list \<Rightarrow> int" where
  "total_size m = (\<Sum>(k, v) \<leftarrow> m. calculateImageSizeBytes (item_image v))"

definition pc_inv :: "PageCache \<Rightarrow> bool" where
  "pc_inv s \<longleftrightarrow>
     distinct (map fst (cacheMap s)) \<and>
     fst ` set (cacheMap s) \<subseteq> set (lruQueue s) \<and>
     currentSizeBytes s = total_size (cacheMap s) \<and>
     (\<forall>(k, v) \<in> set (cacheMap s). 0 < calculateImageSizeBytes (item_image v))"

text \<open>The state \<open>put\<close> hands to the eviction loop: the entry replaced or inserted, counted and queued.\<close>

definition put_inserted :: "int \<Rightarrow> CacheKey \<Rightarrow> QImage \<Rightarrow> PageCache \<Rightarrow> PageCache" where
  "put_inserted now k img s =
     (case map_of (cacheMap s) k of
        Some existing \<Rightarrow>
          s\<lparr>currentSizeBytes := currentSizeBytes s
               + (calculateImageSizeBytes img - calculateImageSizeBytes (item_image existing)),
            cacheMap := update_item k
               (\<lambda>i. i\<lparr>item_image := img, accessCount := 1, timestamp := now\<rparr>) (cacheMap s),
            lruQueue := removeAll_q k (lruQueue s) @ [k]\<rparr>
      | None \<Rightarrow>
          s\<lparr>cacheMap := cacheMap s @ [(k, \<lparr>item_image = img, timestamp = now, accessCount = 1\<rparr>)],
            currentSizeBytes := currentSizeBytes s + calculateImageSizeBytes img,
            lruQueue := lruQueue s @ [k]\<rparr>)"

text \<open>
  Sequences of calls to \<open>PageCache\<close>, each call with the clock reading it sees. A sequence
  stops at the first fault.
\<close>

datatype pc_op =
    Put int CacheKey QImage
  | Get int CacheKey
  | Clear
  | ClearForDocument nat
  | SetMaxSizeBytes int

fun pc_apply :: "pc_op \<Rightarrow> PageCache \<Rightarrow> fault + PageCache" where
  "pc_apply (Put now k img) s = Inr (PageCache_put now k img s)"
| "pc_apply (Get now k) s = Inr (snd (PageCache_get now k s))"
| "pc_apply Clear s = Inr (PageCache_clear s)"
| "pc_apply (ClearForDocument d) s = PageCache_clearForDocument d s"
| "pc_apply (SetMaxSizeBytes sz) s = Inr (PageCache_setMaxSizeBytes sz s)"

fun pc_run :: "pc_op list \<Rightarrow> PageCache \<Rightarrow> fault + PageCache" where
  "pc_run [] s = Inr s"
| "pc_run (x # xs) s = (case pc_apply x s of Inl f \<Rightarrow> Inl f | Inr s' \<Rightarrow> pc_run xs s')"

text \<open>The part of the invariant that does not mention the queue.\<close>

definition pc_sum :: "PageCache \<Rightarrow> bool" where
  "pc_sum s \<longleftrightarrow>
     distinct (map fst (cacheMap s)) \<and> currentSizeBytes s = total_size (cacheMap s)"

section \<open>IntelligentCache (src/core/IntelligentCache.cpp, IntelligentCache.h)\<close>

text \<open>
  Log lines (\<open>LOG_DEBUG\<close>, \<open>LOG_INFO\<close>, \<open>LOG_WARN\<close>, \<open>LOG_ERROR\<close>) carry their level and
  the fixed part of their text. \<open>QVariant\<close> is a small sum of the shapes the size estimate
  looks at.
\<close>

datatype LogLevel = Debug | Info | Warn | Error

datatype QVariant = VInvalid | VString string | VImage QImage | VByteArray "nat list"

datatype EvictionPolicy = LRU | LFU | Priority | Predictive

record CachedItem_ic =
  data :: QVariant
  sizeBytes :: int
  lastAccessTime :: int
  creationTime :: int
  accessCount_ic :: int
  priority :: rat
  key :: string
  metadata :: "(string \<times> QVariant) list"

datatype Event =
    Log LogLevel string
  | itemAdded string int
  | itemRemoved string int
  | cacheSizeChanged int nat
  | statisticsChanged

text \<open>
  \<open>IntelligentCache::Private\<close>: the hash table as an association list in iteration order,
  and the log lines and signals produced so far. \<open>QDateTime\<close> values are milliseconds since
  the epoch, \<open>qreal\<close> priorities are rationals.
\<close>

record IntelligentCache =
  cacheData :: "(string \<times> CachedItem_ic) list"
  maxSizeBytes_ic :: int
  currentSizeBytes_ic :: int
  evictionPolicy :: EvictionPolicy
  events :: "Event list"

definition IntelligentCache_new :: IntelligentCache where
  "IntelligentCache_new = \<lparr>cacheData = [], maxSizeBytes_ic = 50 * 1024 * 1024,
     currentSizeBytes_ic = 0, evictionPolicy = LRU, events = []\<rparr>"

definition INT_MAX :: int where
  "INT_MAX = 2147483647"

definition DBL_MAX :: rat where
  "DBL_MAX = 2 ^ 1024 - 2 ^ 971"

text \<open>
  The scan shared by the four branches of \<open>evictIfNeeded\<close>: \<open>best\<close> starts at the branch's
  sentinel (the clock reading, \<open>INT_MAX\<close>, the largest double), \<open>keyToEvict\<close> at the empty
  string; an entry replaces both when its value is strictly below \<open>best\<close>.
\<close>

fun scan :: "('v \<Rightarrow> 'a::linorder) \<Rightarrow> 'a \<Rightarrow> string \<Rightarrow> (string \<times> 'v) list \<Rightarrow> string" where
  "scan f best keyToEvict [] = keyToEvict"
| "scan f best keyToEvict ((k, v) # xs) =
     (if f v < best then scan f (f v) k xs else scan f best keyToEvict xs)"

definition selectKey :: "EvictionPolicy \<Rightarrow> int \<Rightarrow> (string \<times> CachedItem_ic) list \<Rightarrow> string" where
  "selectKey policy now xs =
     (case policy of
        LRU \<Rightarrow> scan lastAccessTime now [] xs
      | LFU \<Rightarrow> scan accessCount_ic INT_MAX [] xs
      | Priority \<Rightarrow> scan priority DBL_MAX [] xs
      | Predictive \<Rightarrow> scan lastAccessTime now [] xs)"

lemma scan_key: "scan f best k0 xs = k0 \<or> scan f best k0 xs \<in> fst ` set xs"
proof (induction xs arbitrary: best k0)
  case Nil
  then show ?case by simp
next
  case (Cons p xs)
  obtain k v where p: "p = (k, v)" by (cases p)
  show ?case
    using Cons.IH [of "f v" k] Cons.IH [of best k0] by (auto simp: p)
qed

lemma selectKey_key: "selectKey policy now xs = [] \<or> selectKey policy now xs \<in> fst ` set xs"
  by (cases policy) (simp_all add: selectKey_def scan_key)

lemma erase_shorter: "k \<in> fst ` set xs \<Longrightarrow> length (erase k xs) < length xs"
  unfolding erase_def by (auto intro: length_filter_less)

definition no_item_warning :: Event where
  "no_item_warning = Log Warn ''Cache size exceeded limit but no item found for eviction!''"

text \<open>
  The while loop of \<open>evictIfNeeded\<close>. \<open>clk i\<close> is what \<open>QDateTime::currentDateTime()\<close> returns
  in iteration \<open>i\<close> (read by the LRU and Predictive branches). \<open>QHash::take\<close> of an absent key
  would return a default item; the scan only returns keys of the table, so that branch is
  never reached.
\<close>

function evictLoop :: "(nat \<Rightarrow> int) \<Rightarrow> nat \<Rightarrow> IntelligentCache \<Rightarrow> IntelligentCache" where
  "evictLoop clk i s =
     (if currentSizeBytes_ic s > maxSizeBytes_ic s \<and> cacheData s \<noteq> [] then
        (let keyToEvict = selectKey (evictionPolicy s) (clk i) (cacheData s) in
         if keyToEvict \<noteq> [] then
           (case map_of (cacheData s) keyToEvict of
              Some item \<Rightarrow>
                evictLoop clk (Suc i)
                  (s\<lparr>cacheData := erase keyToEvict (cacheData s),
                     currentSizeBytes_ic := currentSizeBytes_ic s - sizeBytes item,
                     events := events s @ [Log Debug ''Evicted item from cache'',
                                           itemRemoved keyToEvict (sizeBytes item)]\<rparr>)
            | None \<Rightarrow> s)
         else s\<lparr>events := events s @ [no_item_warning]\<rparr>)
      else s)"
  by pat_completeness auto
termination
proof (relation "measure (\<lambda>(clk, i, s). length (cacheData s))")
  show "wf (measure (\<lambda>(clk, i, s). length (cacheData s)))" by simp
next
  fix clk :: "nat \<Rightarrow> int" and i :: nat and s :: IntelligentCache and x x2
  assume "x = selectKey (evictionPolicy s) (clk i) (cacheData s)"
    and "map_of (cacheData s) x = Some x2"
  then have "x \<in> fst ` set (cacheData s)"
    by (metis domI dom_map_of_conv_image_fst)
  then have "length (erase x (cacheData s)) < length (cacheData s)"
    by (rule erase_shorter)
  then show "((clk, Suc i,
       s\<lparr>cacheData := erase x (cacheData s),
         currentSizeBytes_ic := currentSizeBytes_ic s - sizeBytes x2,
         events := events s @ [Log Debug ''Evicted item from cache'',
                               itemRemoved x (sizeBytes x2)]\<rparr>),
      clk, i, s) \<in> measure (\<lambda>(clk, i, s). length (cacheData s))"
    by simp
qed

declare evictLoop.simps [simp del]

definition evictIfNeeded :: "(nat \<Rightarrow> int) \<Rightarrow> IntelligentCache \<Rightarrow> IntelligentCache" where
  "evictIfNeeded clk s =
     (let s' = evictLoop clk 0 s in
      s'\<lparr>events := events s' @ [cacheSizeChanged (currentSizeBytes_ic s') (length (cacheData s'))]\<rparr>)"

text \<open>
  \<open>calculateItemSizeBytes\<close>, the size estimate used when no size hint is given.
  \<open>sizeof(QChar)\<close> is 2. The estimate asks Qt what a \<open>QVariant\<close> converts to and how large a
  metadata value is (\<open>it.value().sizeInBytes()\<close>); both belong to Qt, not to this repository,
  and are parameters here: \<open>dsize\<close> is the number of bytes the if-chain adds for the data,
  \<open>vsize\<close> the size of a metadata value.
\<close>

definition calculateItemSizeBytes ::
    "(QVariant \<Rightarrow> int) \<Rightarrow> (QVariant \<Rightarrow> int) \<Rightarrow> CachedItem_ic \<Rightarrow> int" where
  "calculateItemSizeBytes dsize vsize item =
     dsize (data item) + int (length (key item)) * 2
       + (\<Sum>(k, v) \<leftarrow> metadata item. int (length k) * 2 + vsize v)"

definition IntelligentCache_contains :: "IntelligentCache \<Rightarrow> string \<Rightarrow> bool" where
  "IntelligentCache_contains s k = (map_of (cacheData s) k \<noteq> None)"

text \<open>
  \<open>IntelligentCache::put\<close>. \<open>now\<close> is the clock reading stored in the new item, \<open>clk\<close> the
  readings of the eviction pass that follows. The result is the returned flag and the state.
  The size hint is a \<open>qint64\<close>; as everywhere, the sum \<open>currentSizeBytes + itemSize\<close> is taken
  in \<open>int\<close> and stands for the code's sum while that does not exceed \<open>INT64_MAX\<close>.
\<close>

definition IntelligentCache_put ::
    "(QVariant \<Rightarrow> int) \<Rightarrow> (QVariant \<Rightarrow> int) \<Rightarrow> int \<Rightarrow> (nat \<Rightarrow> int) \<Rightarrow> string \<Rightarrow> QVariant \<Rightarrow> int
      \<Rightarrow> (string \<times> QVariant) list \<Rightarrow> IntelligentCache \<Rightarrow> bool \<times> IntelligentCache" where
  "IntelligentCache_put dsize vsize now clk k d sizeHint md s =
     (let itemSize =
            (if sizeHint > 0 then sizeHint
             else calculateItemSizeBytes dsize vsize
                    \<lparr>data = d, sizeBytes = 0, lastAccessTime = 0, creationTime = 0,
                     accessCount_ic = 0, priority = 0, key = k, metadata = md\<rparr>);
          s1 = (case map_of (cacheData s) k of
                  Some existing \<Rightarrow>
                    s\<lparr>currentSizeBytes_ic := currentSizeBytes_ic s - sizeBytes existing,
                      cacheData := erase k (cacheData s),
                      events := events s @ [Log Debug ''Replacing existing item in cache'']\<rparr>
                | None \<Rightarrow> s);
          item = \<lparr>data = d, sizeBytes = itemSize, lastAccessTime = now, creationTime = now,
                  accessCount_ic = 1, priority = 1, key = k, metadata = md\<rparr>;
          s2 = s1\<lparr>cacheData := cacheData s1 @ [(k, item)],
                  currentSizeBytes_ic := currentSizeBytes_ic s1 + itemSize\<rparr>;
          s3 = evictIfNeeded clk s2
      in (True, s3\<lparr>events := events s3 @ [itemAdded k itemSize]\<rparr>))"

definition IntelligentCache_get :: "int \<Rightarrow> string \<Rightarrow> IntelligentCache \<Rightarrow> QVariant \<times> IntelligentCache" where
  "IntelligentCache_get now k s =
     (case map_of (cacheData s) k of
        Some it \<Rightarrow>
          (data it,
           s\<lparr>cacheData := update_item k
                 (\<lambda>i. i\<lparr>lastAccessTime := now, accessCount_ic := accessCount_ic i + 1,
                         priority := priority i + 1 / 10\<rparr>) (cacheData s),
             events := events s @ [statisticsChanged]\<rparr>)
      | None \<Rightarrow> (VInvalid, s))"

definition IntelligentCache_remove :: "string \<Rightarrow> IntelligentCache \<Rightarrow> bool \<times> IntelligentCache" where
  "IntelligentCache_remove k s =
     (case map_of (cacheData s) k of
        Some it \<Rightarrow>
          (True,
           s\<lparr>currentSizeBytes_ic := currentSizeBytes_ic s - sizeBytes it,
             cacheData := erase k (cacheData s),
             events := events s @
               [itemRemoved k (sizeBytes it),
                cacheSizeChanged (currentSizeBytes_ic s - sizeBytes it)
                  (length (erase k (cacheData s)))]\<rparr>)
      | None \<Rightarrow> (False, s))"

definition IntelligentCache_clear :: "IntelligentCache \<Rightarrow> IntelligentCache" where
  "IntelligentCache_clear s =
     s\<lparr>cacheData := [], currentSizeBytes_ic := 0,
       events := events s @ [Log Debug ''Cleared entire cache'', cacheSizeChanged 0 0]\<rparr>"

definition IntelligentCache_setMaxSizeBytes ::
    "(nat \<Rightarrow> int) \<Rightarrow> int \<Rightarrow> IntelligentCache \<Rightarrow> IntelligentCache" where
  "IntelligentCache_setMaxSizeBytes clk sz s =
     (if sz \<le> 0 then s
      else if maxSizeBytes_ic s \<noteq> sz then
        evictIfNeeded clk
          (s\<lparr>maxSizeBytes_ic := sz,
             events := events s @ [Log Info ''Cache max size changed'']\<rparr>)
      else s)"

definition setEvictionPolicy :: "EvictionPolicy \<Rightarrow> IntelligentCache \<Rightarrow> IntelligentCache" where
  "setEvictionPolicy policy s =
     (if evictionPolicy s \<noteq> policy then
        s\<lparr>evictionPolicy := policy,
          events := events s @ [Log Info ''Cache eviction policy changed'']\<rparr>
      else s)"

definition hintAccess :: "int \<Rightarrow> string \<Rightarrow> IntelligentCache \<Rightarrow> IntelligentCache" where
  "hintAccess now k s =
     (case map_of (cacheData s) k of
        Some it \<Rightarrow>
          s\<lparr>cacheData := update_item k
                (\<lambda>i. i\<lparr>priority := priority i + 1 / 2, lastAccessTime := now\<rparr>) (cacheData s),
            events := events s @ [Log Debug ''Hinted access for item'']\<rparr>
      | None \<Rightarrow> s\<lparr>events := events s @ [Log Debug ''Hinted access for non-existent item'']\<rparr>)"

text \<open>
  The bookkeeping invariant of \<open>IntelligentCache\<close>: keys are unique and the tracked total is
  the sum of the stored items' sizes.
\<close>

definition total_bytes :: "(string \<times> CachedItem_ic) list \<Rightarrow> int" where
  "total_bytes m = (\<Sum>(k, v) \<leftarrow> m. sizeBytes v)"

definition ic_inv :: "IntelligentCache \<Rightarrow> bool" where
  "ic_inv s \<longleftrightarrow>
     distinct (map fst (cacheData s)) \<and> currentSizeBytes_ic s = total_bytes (cacheData s)"

definition sizes_nonneg :: "IntelligentCache \<Rightarrow> bool" where
  "sizes_nonneg s \<longleftrightarrow> list_all (\<lambda>(k, v). 0 \<le> sizeBytes v) (cacheData s)"

text \<open>
  The state \<open>IntelligentCache::put\<close> hands to \<open>evictIfNeeded\<close>: an entry of the same key
  replaced, the new item inserted and counted.
\<close>

definition put_inserted_ic ::
    "int \<Rightarrow> string \<Rightarrow> QVariant \<Rightarrow> int \<Rightarrow> (string \<times> QVariant) list \<Rightarrow> IntelligentCache
      \<Rightarrow> IntelligentCache" where
  "put_inserted_ic now k d itemSize md s =
     (let s1 = (case map_of (cacheData s) k of
                  Some existing \<Rightarrow>
                    s\<lparr>currentSizeBytes_ic := currentSizeBytes_ic s - sizeBytes existing,
                      cacheData := erase k (cacheData s),
                      events := events s @ [Log Debug ''Replacing existing item in cache'']\<rparr>
                | None \<Rightarrow> s)
      in s1\<lparr>cacheData := cacheData s1 @
                [(k, \<lparr>data = d, sizeBytes = itemSize, lastAccessTime = now, creationTime = now,
                      accessCount_ic = 1, priority = 1, key = k, metadata = md\<rparr>)],
              currentSizeBytes_ic := currentSizeBytes_ic s1 + itemSize\<rparr>)"

text \<open>
  Concrete inputs used below: an \<open>IntelligentCache\<close> whose budget has been set to 1,000,000
  bytes, and a 2,000,000-byte image.
\<close>

definition ic_scenario_start :: IntelligentCache where
  "ic_scenario_start = IntelligentCache_setMaxSizeBytes (\<lambda>i. 0) 1000000 IntelligentCache_new"


text \<open>
  The same cache after a 400,000-byte item has been put under the key \<open>a\<close> at time 1 (the
  eviction pass of that put reads the clock at 2).
\<close>

definition ic_scenario_one :: IntelligentCache where
  "ic_scenario_one =
     snd (IntelligentCache_put (\<lambda>v. 0) (\<lambda>v. 0) 1 (\<lambda>i. 2) ''a'' (VString ''x'') 400000 []
            ic_scenario_start)"

text \<open>
  Sequences of calls to \<open>IntelligentCache\<close>; \<open>dsize\<close> and \<open>vsize\<close> are the parameters of the
  size estimate.
\<close>

datatype ic_op =
    IPut int "nat \<Rightarrow> int" string QVariant int "(string \<times> QVariant) list"
  | IGet int string
  | IRemove string
  | IClear
  | ISetMaxSizeBytes "nat \<Rightarrow> int" int
  | ISetEvictionPolicy EvictionPolicy
  | IHintAccess int string

fun ic_apply :: "(QVariant \<Rightarrow> int) \<Rightarrow> (QVariant \<Rightarrow> int) \<Rightarrow> ic_op \<Rightarrow> IntelligentCache \<Rightarrow> IntelligentCache" where
  "ic_apply dsize vsize (IPut now clk k d sizeHint md) s =
     snd (IntelligentCache_put dsize vsize now clk k d sizeHint md s)"
| "ic_apply dsize vsize (IGet now k) s = snd (IntelligentCache_get now k s)"
| "ic_apply dsize vsize (IRemove k) s = snd (IntelligentCache_remove k s)"
| "ic_apply dsize vsize IClear s = IntelligentCache_clear s"
| "ic_apply dsize vsize (ISetMaxSizeBytes clk sz) s = IntelligentCache_setMaxSizeBytes clk sz s"
| "ic_apply dsize vsize (ISetEvictionPolicy policy) s = setEvictionPolicy policy s"
| "ic_apply dsize vsize (IHintAccess now k) s = hintAccess now k s"

definition ic_run :: "(QVariant \<Rightarrow> int) \<Rightarrow> (QVariant \<Rightarrow> int) \<Rightarrow> ic_op list \<Rightarrow> IntelligentCache \<Rightarrow> IntelligentCache" where
  "ic_run dsize vsize ops s = foldl (\<lambda>s' x. ic_apply dsize vsize x s') s ops"

section \<open>Task and ThreadPool (src/core/ThreadPool.cpp, ThreadPool.h)\<close>

datatype State = Queued | Running | Finished | Canceled

datatype TaskPriority = Low | Normal | High | Critical

text \<open>
  \<open>Task::Private\<close>. The closure \<open>runnable\<close> is opaque; the model keeps whether it is set.
  \<open>QDateTime\<close> fields are \<open>None\<close> while invalid. Log lines of \<open>Task\<close> change no state and
  are left out.
\<close>

record Task =
  runnable :: bool
  task_name :: string
  task_priority :: TaskPriority
  state :: State
  enqueueTime :: "int option"
  startTime :: "int option"
  finishTime :: "int option"
  canceled :: bool
  autoDelete :: bool

definition Task_new :: "bool \<Rightarrow> string \<Rightarrow> TaskPriority \<Rightarrow> int \<Rightarrow> Task" where
  "Task_new r name prio now =
     \<lparr>runnable = r, task_name = name, task_priority = prio, state = Queued,
      enqueueTime = Some now, startTime = None, finishTime = None, canceled = False,
      autoDelete = True\<rparr>"

text \<open>
  \<open>Task::run\<close> in its two locked sections. \<open>run_begin\<close> is the part before the body: it
  returns the task and whether \<open>run\<close> goes on to the body (false on the early return of a
  canceled task). \<open>run_body\<close> tells whether the closure is then invoked. \<open>run_end\<close> is the
  part after the body; an exception thrown by the body is caught and logged, so \<open>run_end\<close>
  follows in every case.
\<close>

definition run_begin :: "int \<Rightarrow> Task \<Rightarrow> Task \<times> bool" where
  "run_begin now t =
     (if canceled t then (t\<lparr>state := Canceled\<rparr>, False)
      else (t\<lparr>state := Running, startTime := Some now\<rparr>, True))"

definition run_body :: "Task \<Rightarrow> bool" where
  "run_body t = runnable t"

definition run_end :: "int \<Rightarrow> Task \<Rightarrow> Task" where
  "run_end now t = t\<lparr>state := Finished, finishTime := Some now\<rparr>"

text \<open>The whole of \<open>Task::run\<close>: the final task and whether the closure was invoked.\<close>

definition Task_run :: "int \<Rightarrow> int \<Rightarrow> Task \<Rightarrow> Task \<times> bool" where
  "Task_run now1 now2 t =
     (case run_begin now1 t of
        (t1, True) \<Rightarrow> (run_end now2 t1, run_body t1)
      | (t1, False) \<Rightarrow> (t1, False))"

definition Task_cancel :: "Task \<Rightarrow> Task \<times> bool" where
  "Task_cancel t =
     (if state t = Queued then (t\<lparr>canceled := True, state := Canceled\<rparr>, True)
      else (t, False))"

text \<open>
  \<open>ThreadPool::Private\<close> together with the \<open>Task\<close> objects it points to. A \<open>Task*\<close> is an
  address (\<open>None\<close> is the null pointer) and \<open>tasks\<close> is the store of the objects; \<open>Task::id\<close>
  is the address itself. \<open>QSet\<close>s are lists without repetition. \<open>started\<close> lists the
  runnables handed to \<open>QThreadPool::start\<close>, which later calls their \<open>run\<close> on a worker
  thread. Signals and log lines change no state and are left out.
\<close>

record ThreadPool =
  tasks :: "nat \<Rightarrow> Task"
  allTasks :: "nat list"
  tasksByState :: "State \<Rightarrow> nat list"
  totalSubmitted :: nat
  totalCompleted :: nat
  started :: "nat list"

definition ThreadPool_new :: "(nat \<Rightarrow> Task) \<Rightarrow> ThreadPool" where
  "ThreadPool_new store =
     \<lparr>tasks = store, allTasks = [], tasksByState = (\<lambda>st. []), totalSubmitted = 0,
      totalCompleted = 0, started = []\<rparr>"

definition set_insert :: "nat \<Rightarrow> nat list \<Rightarrow> nat list" where
  "set_insert a xs = (if a \<in> set xs then xs else xs @ [a])"

definition set_remove :: "nat \<Rightarrow> nat list \<Rightarrow> nat list" where
  "set_remove a xs = filter (\<lambda>x. x \<noteq> a) xs"

definition submitTask :: "nat option \<Rightarrow> ThreadPool \<Rightarrow> ThreadPool" where
  "submitTask p w =
     (case p of
        None \<Rightarrow> w
      | Some a \<Rightarrow>
          w\<lparr>allTasks := set_insert a (allTasks w),
            tasksByState := (tasksByState w)(Queued := set_insert a (tasksByState w Queued)),
            totalSubmitted := totalSubmitted w + 1,
            started := started w @ [a]\<rparr>)"

text \<open>
  The worker thread of \<open>QThreadPool\<close> running \<open>task->run()\<close>: the two sections of
  \<open>Task::run\<close> applied to the object at the address. The second section belongs to a run
  whose first section went on to the body, that is to a task that is Running. \<open>Task::run\<close>
  has no access to the pool, so nothing else changes.
\<close>

definition worker_begin :: "int \<Rightarrow> nat \<Rightarrow> ThreadPool \<Rightarrow> ThreadPool" where
  "worker_begin now a w = w\<lparr>tasks := (tasks w)(a := fst (run_begin now (tasks w a)))\<rparr>"

definition worker_end :: "int \<Rightarrow> nat \<Rightarrow> ThreadPool \<Rightarrow> ThreadPool" where
  "worker_end now a w =
     (if state (tasks w a) = Running
      then w\<lparr>tasks := (tasks w)(a := run_end now (tasks w a))\<rparr> else w)"

definition cancelTask :: "nat option \<Rightarrow> ThreadPool \<Rightarrow> ThreadPool \<times> bool" where
  "cancelTask p w =
     (case p of
        None \<Rightarrow> (w, False)
      | Some a \<Rightarrow>
          (w\<lparr>tasks := (tasks w)(a := fst (Task_cancel (tasks w a)))\<rparr>,
           snd (Task_cancel (tasks w a))))"

text \<open>
  \<open>Private::updateTaskState\<close>, the helper that counts a completion and wakes
  \<open>waitForDone\<close>. No function of the repository calls it.
\<close>

definition updateTaskState :: "nat \<Rightarrow> State \<Rightarrow> State \<Rightarrow> ThreadPool \<Rightarrow> ThreadPool" where
  "updateTaskState a oldState newState w =
     (let byState = (tasksByState w)(oldState := set_remove a (tasksByState w oldState));
          byState' = byState(newState := set_insert a (byState newState))
      in w\<lparr>tasksByState := byState',
           totalCompleted :=
             (if newState = Finished \<or> newState = Canceled then totalCompleted w + 1
              else totalCompleted w)\<rparr>)"

text \<open>
  \<open>ThreadPool::cancelAllQueuedTasks\<close>. \<open>cancelQueued\<close> is its loop over a copy of the Queued
  set, with the pool and the number of tasks canceled so far. After the loop the function
  evaluates \<open>queuedTaskCount()\<close> for the \<open>queueStatusChanged\<close> signal while it still holds
  \<open>d->mutex\<close>; \<open>queuedTaskCount\<close> locks the same \<open>QMutex\<close>, which is not recursive, so the
  calling thread blocks there and the call never returns. The result is therefore \<open>Inl\<close> of
  the pool as the loop left it (with its mutex held for good), never \<open>Inr\<close> of a pool and a
  count.
\<close>

fun cancelQueued :: "nat list \<Rightarrow> ThreadPool \<Rightarrow> nat \<Rightarrow> ThreadPool \<times> nat" where
  "cancelQueued [] w n = (w, n)"
| "cancelQueued (a # as) w n =
     (if snd (Task_cancel (tasks w a)) then
        cancelQueued as
          (w\<lparr>tasks := (tasks w)(a := fst (Task_cancel (tasks w a))),
             tasksByState := (tasksByState w)
               (Queued := set_remove a (tasksByState w Queued),
                Canceled := set_insert a (tasksByState w Canceled)),
             totalCompleted := totalCompleted w + 1\<rparr>)
          (n + 1)
      else cancelQueued as w n)"

definition cancelAllQueuedTasks :: "ThreadPool \<Rightarrow> ThreadPool + ThreadPool \<times> nat" where
  "cancelAllQueuedTasks w = Inl (fst (cancelQueued (tasksByState w Queued) w 0))"

text \<open>
  \<open>ThreadPool::waitForDone\<close>. The parameter is an \<open>int\<close> whose default \<open>UINT_MAX\<close> arrives as
  \<open>-1\<close>, and \<open>msecs == UINT_MAX\<close> holds exactly for \<open>-1\<close>. \<open>elapsed i\<close> is what
  \<open>timer.elapsed()\<close> returns after the \<open>i\<close>-th wait of at most 100 ms. The loop is run on a
  pool nobody else changes meanwhile; it need not terminate, so the result is an option:
  \<open>Some (msecs, warned)\<close> when the call returns, with the remaining time and whether the
  timeout warning was logged.
\<close>

definition UINT_MAX_as_int :: int where
  "UINT_MAX_as_int = - 1"

partial_function (option) waitLoop :: "(nat \<Rightarrow> int) \<Rightarrow> nat \<Rightarrow> ThreadPool \<Rightarrow> int \<Rightarrow> int option" where
  "waitLoop elapsed i w msecs =
     (if totalCompleted w < totalSubmitted w \<and> (msecs = UINT_MAX_as_int \<or> msecs > 0) then
        waitLoop elapsed (Suc i) w
          (if msecs \<noteq> UINT_MAX_as_int then msecs - elapsed i else msecs)
      else Some msecs)"

definition waitForDone :: "(nat \<Rightarrow> int) \<Rightarrow> int \<Rightarrow> ThreadPool \<Rightarrow> (int \<times> bool) option" where
  "waitForDone elapsed msecs w =
     (case waitLoop elapsed 0 w msecs of
        None \<Rightarrow> None
      | Some m \<Rightarrow> Some (m, m \<le> 0))"

text \<open>A store in which every address holds a fresh, unnamed task with a closure.\<close>

definition fresh_tasks :: "nat \<Rightarrow> Task" where
  "fresh_tasks a = Task_new True [] Normal 0"

section \<open>LazyLoader (src/core/LazyLoader.cpp, LazyLoader.h)\<close>

datatype ResourceType = PageContent | PageThumbnail | EmbeddedImage | Font | Annotation | FormField

text \<open>
  \<open>LoadRequest\<close>. The two callbacks are opaque closures: \<open>None\<close> is the empty
  \<open>std::function\<close>, \<open>Some n\<close> names a closure. \<open>requestTime\<close> is in milliseconds; the
  null \<open>QDateTime\<close> of a request not yet queued is overwritten by \<open>queueRequest\<close>.
\<close>

record LoadRequest =
  lr_key :: string
  lr_type :: ResourceType
  lr_parameters :: "(string \<times> QVariant) list"
  onSuccess :: "nat option"
  onError :: "nat option"
  lr_priority :: int
  requestTime :: int

text \<open>
  \<open>LazyLoader::Private\<close>, with two lists that record what leaves the object: \<open>posted\<close>
  counts the queued invocations of \<open>processNextRequest\<close> posted to the event loop, and
  \<open>dispatched\<close> lists the requests handed to the \<open>ThreadPool\<close> as tasks, in the order of
  their hand-over. Log lines and the \<open>queueStatusChanged\<close> signal change no state and are
  left out.
\<close>

record LazyLoader =
  requestQueue :: "LoadRequest list"
  activeRequests :: "string set"
  maxConcurrent :: int
  activeCount :: int
  posted :: nat
  dispatched :: "LoadRequest list"

definition LazyLoader_new :: LazyLoader where
  "LazyLoader_new = \<lparr>requestQueue = [], activeRequests = {}, maxConcurrent = 4, activeCount = 0,
     posted = 0, dispatched = []\<rparr>"

text \<open>The comparator of \<open>sortQueue\<close>: higher priority first, then the earlier request time.\<close>

definition before :: "LoadRequest \<Rightarrow> LoadRequest \<Rightarrow> bool" where
  "before a b =
     (if lr_priority a \<noteq> lr_priority b then lr_priority a > lr_priority b
      else requestTime a < requestTime b)"

text \<open>
  \<open>std::sort\<close> belongs to the C++ library, not to this repository; it is a parameter
  \<open>std_sort\<close> of everything that sorts. What the library promises of it for this comparator
  is \<open>sorts_queue\<close>: the result is a rearrangement of the input in which no element is
  \<open>before\<close> one that precedes it. The order of elements the comparator does not separate
  is not promised.
\<close>

type_synonym sorter = "(LoadRequest \<Rightarrow> LoadRequest \<Rightarrow> bool) \<Rightarrow> LoadRequest list \<Rightarrow> LoadRequest list"

definition sorts_queue :: "sorter \<Rightarrow> bool" where
  "sorts_queue std_sort \<longleftrightarrow>
     (\<forall>xs. mset (std_sort before xs) = mset xs
           \<and> sorted_wrt (\<lambda>a b. \<not> before b a) (std_sort before xs))"

definition sortQueue :: "sorter \<Rightarrow> LazyLoader \<Rightarrow> LazyLoader" where
  "sortQueue std_sort s = s\<lparr>requestQueue := std_sort before (requestQueue s)\<rparr>"

fun findRequestIndex :: "LoadRequest list \<Rightarrow> string \<Rightarrow> nat option" where
  "findRequestIndex [] k = None"
| "findRequestIndex (r # rs) k =
     (if lr_key r = k then Some 0 else map_option Suc (findRequestIndex rs k))"

text \<open>
  \<open>LazyLoader::queueRequest\<close>. \<open>requestQueue.contains(request)\<close> compares with
  \<open>operator==\<close> of \<open>LoadRequest\<close>, which no file of the repository declares; it is the
  parameter \<open>eq\<close>, applied as \<open>QList::contains\<close> applies it (queued element first).
\<close>

definition queueRequest ::
    "(LoadRequest \<Rightarrow> LoadRequest \<Rightarrow> bool) \<Rightarrow> sorter \<Rightarrow> int \<Rightarrow> LoadRequest \<Rightarrow> LazyLoader \<Rightarrow> LazyLoader" where
  "queueRequest eq std_sort now request s =
     (if list_ex (\<lambda>q. eq q request) (requestQueue s) \<or> lr_key request \<in> activeRequests s
      then s
      else
        (sortQueue std_sort
           (s\<lparr>requestQueue := requestQueue s @ [request\<lparr>requestTime := now\<rparr>]\<rparr>))
          \<lparr>posted := posted s + 1\<rparr>)"

definition cancelRequest :: "string \<Rightarrow> LazyLoader \<Rightarrow> LazyLoader \<times> bool" where
  "cancelRequest k s =
     (if k \<in> activeRequests s then (s, False)
      else
        (case findRequestIndex (requestQueue s) k of
           Some i \<Rightarrow>
             (s\<lparr>requestQueue := take i (requestQueue s) @ drop (Suc i) (requestQueue s)\<rparr>, True)
         | None \<Rightarrow> (s, False)))"

definition cancelAllRequests :: "LazyLoader \<Rightarrow> LazyLoader" where
  "cancelAllRequests s = s\<lparr>requestQueue := []\<rparr>"

definition setMaxConcurrentLoads :: "int \<Rightarrow> LazyLoader \<Rightarrow> LazyLoader" where
  "setMaxConcurrentLoads n s =
     (if n < 1 then s
      else if maxConcurrent s \<noteq> n then s\<lparr>maxConcurrent := n, posted := posted s + 1\<rparr>
      else s)"

definition hintResourceNeeded :: "sorter \<Rightarrow> int \<Rightarrow> string \<Rightarrow> LazyLoader \<Rightarrow> LazyLoader" where
  "hintResourceNeeded std_sort now k s =
     (case findRequestIndex (requestQueue s) k of
        Some i \<Rightarrow>
          sortQueue std_sort
            (s\<lparr>requestQueue := (requestQueue s)
                 [i := (requestQueue s ! i)
                    \<lparr>lr_priority := lr_priority (requestQueue s ! i) + 1000,
                     requestTime := now\<rparr>]\<rparr>)
      | None \<Rightarrow> s)"


text \<open>The closure run on the main thread when a load task has finished.\<close>

definition requestCompleted :: "LoadRequest \<Rightarrow> LazyLoader \<Rightarrow> LazyLoader" where
  "requestCompleted request s =
     s\<lparr>activeRequests := activeRequests s - {lr_key request},
       activeCount := activeCount s - 1,
       posted := posted s + 1\<rparr>"

text \<open>
  A sorting function that keeps the promise of \<open>std::sort\<close> for the comparator, and a
  request with a given key and priority: used to instantiate the parameters.
\<close>

definition rank :: "LoadRequest \<Rightarrow> int \<times> int" where
  "rank r = (- lr_priority r, requestTime r)"

definition stable_sorter :: sorter where
  "stable_sorter cmp xs = sort_key rank xs"


definition request :: "string \<Rightarrow> int \<Rightarrow> LoadRequest" where
  "request k p = \<lparr>lr_key = k, lr_type = PageThumbnail, lr_parameters = [], onSuccess = None,
     onError = None, lr_priority = p, requestTime = 0\<rparr>"

text \<open>
  A sorting function keeps ties when elements the comparator does not separate stay in their
  input order. \<open>std::sort\<close> does not promise it; the insertion sort that implementations
  use on short ranges does it.
\<close>

definition keeps_ties :: "sorter \<Rightarrow> bool" where
  "keeps_ties std_sort \<longleftrightarrow>
     (\<forall>xs k. filter (\<lambda>x. \<not> before k x \<and> \<not> before x k) (std_sort before xs)
              = filter (\<lambda>x. \<not> before k x \<and> \<not> before x k) xs)"


text \<open>A third sorting function that keeps the promise: ties go by key length, longer first.\<close>

definition tie_breaking_sorter :: sorter where
  "tie_breaking_sorter cmp xs = sort_key (\<lambda>r. (rank r, - int (length (lr_key r)))) xs"

section \<open>RenderThread (src/core/RenderThread.cpp, ThreadRender.h)\<close>

text \<open>
  A \<open>Page*\<close> is an address, \<open>None\<close> the null pointer; \<open>pages\<close> maps an address to what the
  worker reads of the page: its size in points and its index. \<open>qreal\<close> values are
  rationals: quotients and products are exact in the model, where the doubles of the code
  round, so a computed pixel size may differ by one from the code's where a scale other
  than 1 is applied. The theorems below state pixel sizes only for scale 1, where doubles are
  exact, and otherwise compare two runs of the same computation.
\<close>

record Page =
  page_size :: "rat \<times> rat"
  page_index :: int

record RenderRequest =
  page :: "nat option"
  rr_targetSize :: "int \<times> int"
  rr_zoomLevel :: rat
  rr_rotation :: int
  clipRect :: "rat \<times> rat \<times> rat \<times> rat"
  highQuality :: bool
  requestId :: nat
  rr_canceled :: bool

record RenderResult =
  res_requestId :: nat
  res_image :: QImage
  success :: bool
  errorMessage :: string

text \<open>
  \<open>RenderThread::Private\<close>, and in \<open>completed\<close> the results emitted with \<open>renderCompleted\<close>.
  Log lines and \<open>queueStatusChanged\<close> change no state and are left out.
\<close>

record RenderThread =
  rt_requestQueue :: "RenderRequest list"
  activeRequestIds :: "nat set"
  shouldQuit :: bool
  isProcessing :: bool
  completed :: "RenderResult list"

definition RenderThread_new :: RenderThread where
  "RenderThread_new = \<lparr>rt_requestQueue = [], activeRequestIds = {}, shouldQuit = False,
     isProcessing = False, completed = []\<rparr>"

definition failure :: "nat \<Rightarrow> string \<Rightarrow> RenderResult" where
  "failure rid msg = \<lparr>res_requestId = rid, res_image = NullImage, success = False,
     errorMessage = msg\<rparr>"

text \<open>
  \<open>qRound\<close> rounds to the nearest integer, halves upwards (it is only applied to values
  that are not negative; its result is an \<open>int\<close> in the code and unbounded here, so the
  theorems that use it ask for a result up to \<open>INT_MAX\<close>). \<open>QImage(size, format)\<close> is null
  for a size that is not positive in both directions and when the buffer cannot be
  allocated; \<open>alloc w h\<close> tells whether a buffer of that size can be. The format is 32 bits
  deep.
\<close>

definition qRound :: "rat \<Rightarrow> int" where
  "qRound d = \<lfloor>d + 1 / 2\<rfloor>"

definition QImage_create :: "(int \<Rightarrow> int \<Rightarrow> bool) \<Rightarrow> int \<times> int \<Rightarrow> QImage" where
  "QImage_create alloc sz =
     (if fst sz \<le> 0 \<or> snd sz \<le> 0 \<or> \<not> alloc (fst sz) (snd sz) then NullImage
      else Image (fst sz) (snd sz) 32)"

text \<open>
  \<open>Private::processRequest\<close>. \<open>painter_ok\<close> is what \<open>painter.isActive()\<close> returns. The
  rotation only turns the painter, and the picture painted is not part of the model: a
  successful result carries an image of the computed size.
\<close>

definition processRequest ::
    "(int \<Rightarrow> int \<Rightarrow> bool) \<Rightarrow> bool \<Rightarrow> (nat \<Rightarrow> Page) \<Rightarrow> RenderRequest \<Rightarrow> RenderResult" where
  "processRequest alloc painter_ok pages req =
     (if rr_canceled req then failure (requestId req) ''Request was canceled.''
      else
        (case page req of
           None \<Rightarrow> failure (requestId req) ''Invalid page pointer.''
         | Some p \<Rightarrow>
             (let pageSize = page_size (pages p) in
              if fst pageSize \<le> 0 \<or> snd pageSize \<le> 0
              then failure (requestId req) ''Page has invalid size.''
              else
                let dpi = 72;
                    scaleX = (if fst (rr_targetSize req) > 0
                              then (of_int (fst (rr_targetSize req)) / fst pageSize) * 72 / dpi
                              else 1);
                    scaleY = (if snd (rr_targetSize req) > 0
                              then (of_int (snd (rr_targetSize req)) / snd pageSize) * 72 / dpi
                              else 1);
                    scale = min scaleX scaleY;
                    renderSize = (qRound (fst pageSize * scale), qRound (snd pageSize * scale));
                    img = QImage_create alloc renderSize
                in if isNull img then failure (requestId req) ''Failed to create image buffer.''
                   else if \<not> painter_ok
                   then failure (requestId req) ''Failed to initialize painter.''
                   else \<lparr>res_requestId = requestId req, res_image = img, success = True,
                          errorMessage = []\<rparr>)))"

definition submitRequest :: "RenderRequest \<Rightarrow> RenderThread \<Rightarrow> RenderThread" where
  "submitRequest req s = s\<lparr>rt_requestQueue := rt_requestQueue s @ [req]\<rparr>"

fun mark_first :: "nat \<Rightarrow> RenderRequest list \<Rightarrow> RenderRequest list" where
  "mark_first rid [] = []"
| "mark_first rid (r # rs) =
     (if requestId r = rid then r\<lparr>rr_canceled := True\<rparr> # rs else r # mark_first rid rs)"

definition RenderThread_cancelRequest :: "nat \<Rightarrow> RenderThread \<Rightarrow> RenderThread" where
  "RenderThread_cancelRequest rid s = s\<lparr>rt_requestQueue := mark_first rid (rt_requestQueue s)\<rparr>"

definition cancelRequestsForPage :: "nat option \<Rightarrow> RenderThread \<Rightarrow> RenderThread" where
  "cancelRequestsForPage p s =
     (case p of
        None \<Rightarrow> s
      | Some a \<Rightarrow>
          s\<lparr>rt_requestQueue :=
              map (\<lambda>r. if page r = Some a then r\<lparr>rr_canceled := True\<rparr> else r)
                (rt_requestQueue s)\<rparr>)"

definition RenderThread_cancelAllRequests :: "RenderThread \<Rightarrow> RenderThread" where
  "RenderThread_cancelAllRequests s =
     s\<lparr>rt_requestQueue := map (\<lambda>r. r\<lparr>rr_canceled := True\<rparr>) (rt_requestQueue s)\<rparr>"

text \<open>
  One turn of the \<open>forever\<close> loop of \<open>RenderThread::run\<close>, taken when a request is queued
  and the thread is not asked to quit (\<open>None\<close> otherwise: the thread waits or leaves).
\<close>

definition run_iteration ::
    "(int \<Rightarrow> int \<Rightarrow> bool) \<Rightarrow> bool \<Rightarrow> (nat \<Rightarrow> Page) \<Rightarrow> RenderThread \<Rightarrow> RenderThread option" where
  "run_iteration alloc painter_ok pages s =
     (if shouldQuit s then None
      else
        (case rt_requestQueue s of
           [] \<Rightarrow> None
         | req # rest \<Rightarrow>
             Some (s\<lparr>rt_requestQueue := rest,
                     activeRequestIds := activeRequestIds s - {requestId req},
                     isProcessing := False,
                     completed := completed s @ [processRequest alloc painter_ok pages req]\<rparr>)))"

text \<open>Concrete inputs: A4 pages at every address, and four malformed requests.\<close>

definition a4_pages :: "nat \<Rightarrow> Page" where
  "a4_pages a = \<lparr>page_size = (595, 842), page_index = int a\<rparr>"

definition null_page_request :: RenderRequest where
  "null_page_request = \<lparr>page = None, rr_targetSize = (800, 600), rr_zoomLevel = 1,
     rr_rotation = 0, clipRect = (0, 0, 0, 0), highQuality = False, requestId = 11,
     rr_canceled = False\<rparr>"

definition zero_size_request :: RenderRequest where
  "zero_size_request = \<lparr>page = Some 7, rr_targetSize = (0, 0), rr_zoomLevel = 1,
     rr_rotation = 0, clipRect = (0, 0, 0, 0), highQuality = False, requestId = 12,
     rr_canceled = False\<rparr>"

definition zero_width_request :: RenderRequest where
  "zero_width_request = \<lparr>page = Some 7, rr_targetSize = (0, 421), rr_zoomLevel = 1,
     rr_rotation = 0, clipRect = (0, 0, 0, 0), highQuality = False, requestId = 13,
     rr_canceled = False\<rparr>"

definition negative_height_request :: RenderRequest where
  "negative_height_request = \<lparr>page = Some 7, rr_targetSize = (800, - 600), rr_zoomLevel = 1,
     rr_rotation = 0, clipRect = (0, 0, 0, 0), highQuality = False, requestId = 14,
     rr_canceled = False\<rparr>"

section \<open>Properties\<close>

subsection \<open>PageCache: evaluating the eviction loop\<close>

lemma evictIfNecessary_stop:
  "\<not> (currentSizeBytes s > maxSizeBytes s \<and> lruQueue s \<noteq> []) \<Longrightarrow> evictIfNecessary s = s"
  by (subst evictIfNecessary.simps) auto

lemma evictIfNecessary_step:
  "currentSizeBytes s > maxSizeBytes s \<Longrightarrow> lruQueue s = k # q \<Longrightarrow>
   evictIfNecessary s =
     evictIfNecessary (if PageCache_contains (s\<lparr>lruQueue := q\<rparr>) k
                       then removeItem k (s\<lparr>lruQueue := q\<rparr>) else s\<lparr>lruQueue := q\<rparr>)"
  by (subst evictIfNecessary.simps) (simp add: Let_def)

lemma scenario_start_eq:
  "scenario_start = \<lparr>cacheMap = [], lruQueue = [], maxSizeBytes = 1000000,
     currentSizeBytes = 0, emitted = []\<rparr>"
  by (simp add: scenario_start_def PageCache_setMaxSizeBytes_def PageCache_new_def
      evictIfNecessary_stop)

lemma three_puts:
  assumes d: "distinct [A, B, C]"
    and sz: "calculateImageSizeBytes ia = 400000" "calculateImageSizeBytes ib = 400000"
      "calculateImageSizeBytes ic = 400000"
  shows "PageCache_put t3 C ic (PageCache_put t2 B ib (PageCache_put t1 A ia scenario_start)) =
     \<lparr>cacheMap = [(B, new_item ib t2), (C, new_item ic t3)], lruQueue = [B, C],
      maxSizeBytes = 1000000, currentSizeBytes = 800000,
      emitted = [(400000, 1), (800000, 2), (800000, 2)]\<rparr>"
proof -
  from d have ne: "A \<noteq> B" "B \<noteq> A" "A \<noteq> C" "C \<noteq> A" "B \<noteq> C" "C \<noteq> B" by auto
  have s1: "PageCache_put t1 A ia scenario_start =
      \<lparr>cacheMap = [(A, new_item ia t1)], lruQueue = [A], maxSizeBytes = 1000000,
       currentSizeBytes = 400000, emitted = [(400000, 1)]\<rparr>"
    by (simp add: PageCache_put_def scenario_start_eq sz evictIfNecessary_stop new_item_def)
  have s2: "PageCache_put t2 B ib (PageCache_put t1 A ia scenario_start) =
      \<lparr>cacheMap = [(A, new_item ia t1), (B, new_item ib t2)], lruQueue = [A, B],
       maxSizeBytes = 1000000, currentSizeBytes = 800000,
       emitted = [(400000, 1), (800000, 2)]\<rparr>"
    unfolding s1 by (simp add: PageCache_put_def sz ne evictIfNecessary_stop new_item_def)
  show ?thesis
    unfolding s2
    by (simp add: PageCache_put_def sz ne evictIfNecessary_stop evictIfNecessary_step
        new_item_def PageCache_contains_def removeItem_def erase_def removeAll_q_def)
qed

lemma four_puts:
  assumes d: "distinct [A, B, C, D]"
    and sz: "calculateImageSizeBytes ia = 400000" "calculateImageSizeBytes ib = 400000"
      "calculateImageSizeBytes ic = 400000" "calculateImageSizeBytes idd = 400000"
  shows "PageCache_put t4 D idd (PageCache_put t3 C ic (PageCache_put t2 B ib
           (PageCache_put t1 A ia scenario_start))) =
     \<lparr>cacheMap = [(C, new_item ic t3), (D, new_item idd t4)], lruQueue = [C, D],
      maxSizeBytes = 1000000, currentSizeBytes = 800000,
      emitted = [(400000, 1), (800000, 2), (800000, 2), (800000, 2)]\<rparr>"
proof -
  from d have ne: "B \<noteq> C" "C \<noteq> B" "B \<noteq> D" "D \<noteq> B" "C \<noteq> D" "D \<noteq> C" by auto
  from d have d3: "distinct [A, B, C]" by simp
  show ?thesis
    unfolding three_puts [OF d3 sz(1-3)]
    by (simp add: PageCache_put_def sz ne evictIfNecessary_stop
        evictIfNecessary_step new_item_def PageCache_contains_def removeItem_def erase_def
        removeAll_q_def)
qed

lemma page_key_distinct:
  "distinct [page_key 1 0, page_key 1 1, page_key 1 2, page_key 1 3]"
  by (simp add: page_key_def)

lemma image400k_size: "calculateImageSizeBytes image400k = 400000"
  by (simp add: image400k_def)

subsection \<open>C1: the four-insert scenario of PageCache\<close>

text \<open>
  C1, as the specification states it: after A, B, C and then D (400,000 bytes each) have been
  put into a cache with a 1,000,000-byte ceiling, exactly A is gone and B, C, D are present
  with a total of at most 1,000,000 bytes. The code refutes it: three 400,000-byte images do
  not fit, and B is evicted by the fourth put.
\<close>

theorem C1_counterexample:
  "\<not> (\<not> PageCache_contains (put_sequence
          [(1, page_key 1 0, image400k), (2, page_key 1 1, image400k),
           (3, page_key 1 2, image400k), (4, page_key 1 3, image400k)] scenario_start)
          (page_key 1 0)
      \<and> PageCache_contains (put_sequence
          [(1, page_key 1 0, image400k), (2, page_key 1 1, image400k),
           (3, page_key 1 2, image400k), (4, page_key 1 3, image400k)] scenario_start)
          (page_key 1 1)
      \<and> PageCache_contains (put_sequence
          [(1, page_key 1 0, image400k), (2, page_key 1 1, image400k),
           (3, page_key 1 2, image400k), (4, page_key 1 3, image400k)] scenario_start)
          (page_key 1 2)
      \<and> PageCache_contains (put_sequence
          [(1, page_key 1 0, image400k), (2, page_key 1 1, image400k),
           (3, page_key 1 2, image400k), (4, page_key 1 3, image400k)] scenario_start)
          (page_key 1 3)
      \<and> currentSizeBytes (put_sequence
          [(1, page_key 1 0, image400k), (2, page_key 1 1, image400k),
           (3, page_key 1 2, image400k), (4, page_key 1 3, image400k)] scenario_start)
          \<le> 1000000)"
proof -
  have "put_sequence
          [(1, page_key 1 0, image400k), (2, page_key 1 1, image400k),
           (3, page_key 1 2, image400k), (4, page_key 1 3, image400k)] scenario_start =
      \<lparr>cacheMap = [(page_key 1 2, new_item image400k 3), (page_key 1 3, new_item image400k 4)],
       lruQueue = [page_key 1 2, page_key 1 3], maxSizeBytes = 1000000,
       currentSizeBytes = 800000,
       emitted = [(400000, 1), (800000, 2), (800000, 2), (800000, 2)]\<rparr>"
    using four_puts [OF page_key_distinct image400k_size image400k_size image400k_size
        image400k_size, of 4 3 2 1]
    by (simp add: put_sequence_def)
  then show ?thesis
    by (simp add: PageCache_contains_def page_key_def)
qed

text \<open>
  C1, amended: for distinct keys A, B, C, D and 400,000-byte images, the third put already
  evicts A (the total would be 1,200,000), and the fourth put evicts B, the oldest entry
  then left. Afterwards exactly C and D are present and the tracked total is 800,000 bytes,
  within the ceiling.
\<close>

theorem C1_fourth_put_leaves_two_newest:
  assumes "distinct [A, B, C, D]"
    and "calculateImageSizeBytes ia = 400000" and "calculateImageSizeBytes ib = 400000"
    and "calculateImageSizeBytes ic = 400000" and "calculateImageSizeBytes idd = 400000"
  shows "\<not> PageCache_contains (put_sequence [(t1, A, ia), (t2, B, ib), (t3, C, ic)] scenario_start) A
    \<and> PageCache_contains (put_sequence [(t1, A, ia), (t2, B, ib), (t3, C, ic)] scenario_start) B
    \<and> PageCache_contains (put_sequence [(t1, A, ia), (t2, B, ib), (t3, C, ic)] scenario_start) C
    \<and> \<not> PageCache_contains
          (put_sequence [(t1, A, ia), (t2, B, ib), (t3, C, ic), (t4, D, idd)] scenario_start) A
    \<and> \<not> PageCache_contains
          (put_sequence [(t1, A, ia), (t2, B, ib), (t3, C, ic), (t4, D, idd)] scenario_start) B
    \<and> PageCache_contains
          (put_sequence [(t1, A, ia), (t2, B, ib), (t3, C, ic), (t4, D, idd)] scenario_start) C
    \<and> PageCache_contains
          (put_sequence [(t1, A, ia), (t2, B, ib), (t3, C, ic), (t4, D, idd)] scenario_start) D
    \<and> currentSizeBytes
          (put_sequence [(t1, A, ia), (t2, B, ib), (t3, C, ic), (t4, D, idd)] scenario_start)
        = 800000
    \<and> maxSizeBytes
          (put_sequence [(t1, A, ia), (t2, B, ib), (t3, C, ic), (t4, D, idd)] scenario_start)
        = 1000000"
proof -
  from assms(1) have ne: "A \<noteq> B" "A \<noteq> C" "A \<noteq> D" "B \<noteq> C" "B \<noteq> D" "C \<noteq> D" by auto
  from assms(1) have d3: "distinct [A, B, C]" by simp
  have s3: "put_sequence [(t1, A, ia), (t2, B, ib), (t3, C, ic)] scenario_start =
      \<lparr>cacheMap = [(B, new_item ib t2), (C, new_item ic t3)], lruQueue = [B, C],
       maxSizeBytes = 1000000, currentSizeBytes = 800000,
       emitted = [(400000, 1), (800000, 2), (800000, 2)]\<rparr>"
    using three_puts [OF d3 assms(2-4), of t3 t2 t1] by (simp add: put_sequence_def)
  have s4: "put_sequence [(t1, A, ia), (t2, B, ib), (t3, C, ic), (t4, D, idd)] scenario_start =
      \<lparr>cacheMap = [(C, new_item ic t3), (D, new_item idd t4)], lruQueue = [C, D],
       maxSizeBytes = 1000000, currentSizeBytes = 800000,
       emitted = [(400000, 1), (800000, 2), (800000, 2), (800000, 2)]\<rparr>"
    using four_puts [OF assms, of t4 t3 t2 t1] by (simp add: put_sequence_def)
  show ?thesis
    unfolding s3 s4 using ne by (simp add: PageCache_contains_def)
qed

theorem C1_fourth_put_leaves_two_newest_witness:
  "distinct [page_key 1 0, page_key 1 1, page_key 1 2, page_key 1 3]
   \<and> calculateImageSizeBytes image400k = 400000
   \<and> \<not> PageCache_contains (put_sequence
          [(1, page_key 1 0, image400k), (2, page_key 1 1, image400k),
           (3, page_key 1 2, image400k), (4, page_key 1 3, image400k)] scenario_start)
          (page_key 1 1)
   \<and> PageCache_contains (put_sequence
          [(1, page_key 1 0, image400k), (2, page_key 1 1, image400k),
           (3, page_key 1 2, image400k), (4, page_key 1 3, image400k)] scenario_start)
          (page_key 1 3)
   \<and> currentSizeBytes (put_sequence
          [(1, page_key 1 0, image400k), (2, page_key 1 1, image400k),
           (3, page_key 1 2, image400k), (4, page_key 1 3, image400k)] scenario_start)
        = 800000"
  using C1_fourth_put_leaves_two_newest [OF page_key_distinct image400k_size image400k_size
      image400k_size image400k_size, of 1 2 3 4]
    page_key_distinct image400k_size
  by blast

subsection \<open>Association lists as hash tables\<close>

lemma map_fst_update_item [simp]: "map fst (update_item k f m) = map fst m"
  by (induction m) auto

lemma map_of_update_item:
  "map_of (update_item k f m) k' =
     (if k' = k then map_option f (map_of m k) else map_of m k')"
  by (induction m) auto

lemma set_update_item:
  "map_of m k = Some v \<Longrightarrow> distinct (map fst m) \<Longrightarrow>
   set (update_item k f m) = insert (k, f v) (set m - {(k, v)})"
proof (induction m)
  case Nil
  then show ?case by simp
next
  case (Cons p m)
  obtain k' v' where p: "p = (k', v')" by (cases p)
  show ?case
  proof (cases "k' = k")
    case True
    with Cons.prems p have "v' = v" "(k, v) \<notin> set m"
      by (auto simp: image_iff)
    with True p show ?thesis by auto
  next
    case False
    with Cons p have "set (update_item k f m) = insert (k, f v) (set m - {(k, v)})"
      by simp
    with False p show ?thesis by auto
  qed
qed

lemma map_of_erase: "map_of (erase k m) k' = (if k' = k then None else map_of m k')"
  unfolding erase_def by (induction m) auto

lemma fst_set_erase: "fst ` set (erase k m) = fst ` set m - {k}"
  unfolding erase_def by auto

lemma distinct_erase: "distinct (map fst m) \<Longrightarrow> distinct (map fst (erase k m))"
  unfolding erase_def by (simp add: distinct_map_filter)

lemma set_erase_subset: "set (erase k m) \<subseteq> set m"
  unfolding erase_def by auto

lemma erase_absent: "k \<notin> fst ` set m \<Longrightarrow> erase k m = m"
  unfolding erase_def by (induction m) auto

lemma set_removeAll_q [simp]: "set (removeAll_q k q) = set q - {k}"
  unfolding removeAll_q_def by auto

subsection \<open>PageCache: the bookkeeping invariant\<close>

lemma total_size_Nil [simp]: "total_size [] = 0"
  by (simp add: total_size_def)

lemma total_size_Cons [simp]:
  "total_size ((k, v) # m) = calculateImageSizeBytes (item_image v) + total_size m"
  by (simp add: total_size_def)

lemma total_size_append [simp]: "total_size (m @ m') = total_size m + total_size m'"
  by (simp add: total_size_def)

lemma total_size_erase:
  "map_of m k = Some v \<Longrightarrow> distinct (map fst m) \<Longrightarrow>
   total_size (erase k m) = total_size m - calculateImageSizeBytes (item_image v)"
proof (induction m)
  case Nil
  then show ?case by simp
next
  case (Cons p m)
  obtain k' v' where p: "p = (k', v')" by (cases p)
  show ?case
  proof (cases "k' = k")
    case True
    with Cons.prems p have "v' = v" "k \<notin> fst ` set m" by auto
    then have "erase k m = m" by (simp add: erase_absent)
    then have "erase k (p # m) = m" using True p by (simp add: erase_def)
    with True p \<open>v' = v\<close> show ?thesis by simp
  next
    case False
    with Cons p show ?thesis by (simp add: erase_def)
  qed
qed

lemma total_size_update_item:
  "map_of m k = Some v \<Longrightarrow>
   total_size (update_item k f m) =
     total_size m - calculateImageSizeBytes (item_image v)
       + calculateImageSizeBytes (item_image (f v))"
  by (induction m) auto



lemma pc_inv_new: "pc_inv PageCache_new"
  by (simp add: pc_inv_def PageCache_new_def)

lemma pc_inv_removeItem: "pc_inv s \<Longrightarrow> pc_inv (removeItem k s)"
  unfolding removeItem_def pc_inv_def
  using set_erase_subset [of k "cacheMap s"]
  by (auto simp: total_size_erase distinct_erase fst_set_erase split: option.splits)

lemma pc_inv_dequeue:
  assumes "pc_inv s" and "lruQueue s = k # q"
  shows "pc_inv (if PageCache_contains (s\<lparr>lruQueue := q\<rparr>) k
                 then removeItem k (s\<lparr>lruQueue := q\<rparr>) else s\<lparr>lruQueue := q\<rparr>)"
proof (cases "map_of (cacheMap s) k")
  case None
  then have "k \<notin> fst ` set (cacheMap s)"
    by (simp add: map_of_eq_None_iff)
  with assms have "pc_inv (s\<lparr>lruQueue := q\<rparr>)"
    by (auto simp: pc_inv_def)
  with None show ?thesis by (simp add: PageCache_contains_def)
next
  case (Some v)
  have "pc_inv (removeItem k (s\<lparr>lruQueue := q\<rparr>))"
    using assms Some set_erase_subset [of k "cacheMap s"]
    by (auto simp: removeItem_def pc_inv_def total_size_erase distinct_erase fst_set_erase)
  with Some show ?thesis by (simp add: PageCache_contains_def)
qed

lemma pc_inv_evictIfNecessary: "pc_inv s \<Longrightarrow> pc_inv (evictIfNecessary s)"
proof (induction s rule: evictIfNecessary.induct)
  case (1 s)
  show ?case
  proof (cases "currentSizeBytes s > maxSizeBytes s \<and> lruQueue s \<noteq> []")
    case False
    with "1.prems" show ?thesis by (simp add: evictIfNecessary_stop)
  next
    case True
    then obtain k q where q: "lruQueue s = k # q" by (cases "lruQueue s") auto
    let ?s' = "if PageCache_contains (s\<lparr>lruQueue := q\<rparr>) k
               then removeItem k (s\<lparr>lruQueue := q\<rparr>) else s\<lparr>lruQueue := q\<rparr>"
    have "pc_inv ?s'" using "1.prems" q by (rule pc_inv_dequeue)
    with "1.IH" [OF True, of k "s\<lparr>lruQueue := q\<rparr>"] q have "pc_inv (evictIfNecessary ?s')"
      by simp
    with True q show ?thesis by (simp add: evictIfNecessary_step)
  qed
qed

lemma evictIfNecessary_post:
  "currentSizeBytes (evictIfNecessary s) \<le> maxSizeBytes (evictIfNecessary s)
     \<or> lruQueue (evictIfNecessary s) = []"
proof (induction s rule: evictIfNecessary.induct)
  case (1 s)
  show ?case
  proof (cases "currentSizeBytes s > maxSizeBytes s \<and> lruQueue s \<noteq> []")
    case False
    then show ?thesis by (auto simp: evictIfNecessary_stop)
  next
    case True
    then obtain k q where q: "lruQueue s = k # q" by (cases "lruQueue s") auto
    with "1.IH" [OF True, of k "s\<lparr>lruQueue := q\<rparr>"] True show ?thesis
      by (simp add: evictIfNecessary_step)
  qed
qed

lemma evictIfNecessary_frame:
  "maxSizeBytes (evictIfNecessary s) = maxSizeBytes s
     \<and> emitted (evictIfNecessary s) = emitted s
     \<and> set (cacheMap (evictIfNecessary s)) \<subseteq> set (cacheMap s)"
proof (induction s rule: evictIfNecessary.induct)
  case (1 s)
  show ?case
  proof (cases "currentSizeBytes s > maxSizeBytes s \<and> lruQueue s \<noteq> []")
    case False
    then show ?thesis by (simp add: evictIfNecessary_stop)
  next
    case True
    then obtain k q where q: "lruQueue s = k # q" by (cases "lruQueue s") auto
    let ?s' = "if PageCache_contains (s\<lparr>lruQueue := q\<rparr>) k
               then removeItem k (s\<lparr>lruQueue := q\<rparr>) else s\<lparr>lruQueue := q\<rparr>"
    have step: "maxSizeBytes ?s' = maxSizeBytes s \<and> emitted ?s' = emitted s
        \<and> set (cacheMap ?s') \<subseteq> set (cacheMap s)"
      using set_erase_subset [of k "cacheMap s"]
      by (auto simp: removeItem_def split: option.splits)
    from "1.IH" [OF True, of k "s\<lparr>lruQueue := q\<rparr>"] q
    have "maxSizeBytes (evictIfNecessary ?s') = maxSizeBytes ?s'
        \<and> emitted (evictIfNecessary ?s') = emitted ?s'
        \<and> set (cacheMap (evictIfNecessary ?s')) \<subseteq> set (cacheMap ?s')"
      by simp
    with step have "maxSizeBytes (evictIfNecessary ?s') = maxSizeBytes s
        \<and> emitted (evictIfNecessary ?s') = emitted s
        \<and> set (cacheMap (evictIfNecessary ?s')) \<subseteq> set (cacheMap s)"
      by auto
    with True q show ?thesis by (simp add: evictIfNecessary_step)
  qed
qed

lemma put_inserted_None:
  "map_of (cacheMap s) k = None \<Longrightarrow>
   put_inserted now k img s =
     s\<lparr>cacheMap := cacheMap s @ [(k, \<lparr>item_image = img, timestamp = now, accessCount = 1\<rparr>)],
       currentSizeBytes := currentSizeBytes s + calculateImageSizeBytes img,
       lruQueue := lruQueue s @ [k]\<rparr>"
  by (simp add: put_inserted_def)

lemma put_inserted_Some:
  "map_of (cacheMap s) k = Some e \<Longrightarrow>
   put_inserted now k img s =
     s\<lparr>currentSizeBytes := currentSizeBytes s
          + (calculateImageSizeBytes img - calculateImageSizeBytes (item_image e)),
       cacheMap := update_item k
          (\<lambda>i. i\<lparr>item_image := img, accessCount := 1, timestamp := now\<rparr>) (cacheMap s),
       lruQueue := removeAll_q k (lruQueue s) @ [k]\<rparr>"
  by (simp add: put_inserted_def)

lemma PageCache_put_eq:
  assumes "calculateImageSizeBytes img \<noteq> 0"
  shows "PageCache_put now k img s =
     (evictIfNecessary (put_inserted now k img s))
       \<lparr>emitted := emitted s @
          [(currentSizeBytes (evictIfNecessary (put_inserted now k img s)),
            length (cacheMap (evictIfNecessary (put_inserted now k img s))))]\<rparr>"
proof -
  have "emitted (put_inserted now k img s) = emitted s"
    by (simp add: put_inserted_def split: option.splits)
  then have e: "emitted (evictIfNecessary (put_inserted now k img s)) = emitted s"
    by (simp add: evictIfNecessary_frame)
  have "PageCache_put now k img s =
     (evictIfNecessary (put_inserted now k img s))
       \<lparr>emitted := emitted (evictIfNecessary (put_inserted now k img s)) @
          [(currentSizeBytes (evictIfNecessary (put_inserted now k img s)),
            length (cacheMap (evictIfNecessary (put_inserted now k img s))))]\<rparr>"
    using assms
    by (cases "map_of (cacheMap s) k")
      (simp_all add: PageCache_put_def put_inserted_None put_inserted_Some Let_def)
  with e show ?thesis by simp
qed

lemma put_inserted_entry:
  "pc_inv s \<Longrightarrow> (k, v) \<in> set (cacheMap (put_inserted now k img s)) \<Longrightarrow> item_image v = img"
proof (cases "map_of (cacheMap s) k")
  case None
  assume "(k, v) \<in> set (cacheMap (put_inserted now k img s))"
  moreover from None have "(k, v) \<notin> set (cacheMap s)"
    by (auto simp: map_of_eq_None_iff image_iff)
  ultimately show ?thesis
    by (auto simp: put_inserted_None [OF None])
next
  case (Some e)
  assume "pc_inv s" and "(k, v) \<in> set (cacheMap (put_inserted now k img s))"
  then have "(k, v) \<in> insert (k, e\<lparr>item_image := img, accessCount := 1, timestamp := now\<rparr>)
      (set (cacheMap s) - {(k, e)})"
    by (simp add: put_inserted_Some [OF Some] pc_inv_def set_update_item [OF Some])
  moreover have "(k, v) \<in> set (cacheMap s) \<Longrightarrow> v = e"
    using Some \<open>pc_inv s\<close> by (simp add: pc_inv_def)
  ultimately show ?thesis by auto
qed

lemma pc_inv_put_inserted:
  assumes "pc_inv s" and "0 < calculateImageSizeBytes img"
  shows "pc_inv (put_inserted now k img s)"
proof (cases "map_of (cacheMap s) k")
  case None
  then have "k \<notin> fst ` set (cacheMap s)" by (simp add: map_of_eq_None_iff)
  with assms show ?thesis
    by (auto simp: put_inserted_None [OF None] pc_inv_def)
next
  case (Some e)
  have "set (update_item k (\<lambda>i. i\<lparr>item_image := img, accessCount := 1, timestamp := now\<rparr>)
          (cacheMap s))
      = insert (k, e\<lparr>item_image := img, accessCount := 1, timestamp := now\<rparr>)
          (set (cacheMap s) - {(k, e)})"
    using Some assms(1) by (simp add: pc_inv_def set_update_item)
  moreover have "fst ` set (update_item k
        (\<lambda>i. i\<lparr>item_image := img, accessCount := 1, timestamp := now\<rparr>) (cacheMap s))
      = fst ` set (cacheMap s)"
    using map_fst_update_item [of k _ "cacheMap s"] by (metis set_map)
  ultimately show ?thesis
    using assms map_of_SomeD [OF Some]
    by (auto simp: put_inserted_Some [OF Some] pc_inv_def total_size_update_item [OF Some])
qed

lemma pc_inv_emitted [simp]: "pc_inv (s\<lparr>emitted := e\<rparr>) = pc_inv s"
  by (simp add: pc_inv_def)

lemma pc_inv_put:
  assumes "pc_inv s" and "0 \<le> calculateImageSizeBytes img"
  shows "pc_inv (PageCache_put now k img s)"
proof (cases "calculateImageSizeBytes img = 0")
  case True
  with assms show ?thesis by (simp add: PageCache_put_def)
next
  case False
  with assms have "pc_inv (put_inserted now k img s)"
    by (simp add: pc_inv_put_inserted)
  then have "pc_inv (evictIfNecessary (put_inserted now k img s))"
    by (rule pc_inv_evictIfNecessary)
  with False show ?thesis by (simp add: PageCache_put_eq)
qed

lemma pc_inv_get: "pc_inv s \<Longrightarrow> pc_inv (snd (PageCache_get now k s))"
proof (cases "map_of (cacheMap s) k")
  case None
  assume "pc_inv s"
  with None show ?thesis by (simp add: PageCache_get_def)
next
  case (Some e)
  assume inv: "pc_inv s"
  have "set (update_item k (\<lambda>i. i\<lparr>accessCount := accessCount i + 1, timestamp := now\<rparr>)
          (cacheMap s))
      = insert (k, e\<lparr>accessCount := accessCount e + 1, timestamp := now\<rparr>)
          (set (cacheMap s) - {(k, e)})"
    using Some inv by (simp add: pc_inv_def set_update_item)
  moreover have "fst ` set (update_item k
        (\<lambda>i. i\<lparr>accessCount := accessCount i + 1, timestamp := now\<rparr>) (cacheMap s))
      = fst ` set (cacheMap s)"
    using map_fst_update_item [of k _ "cacheMap s"] by (metis set_map)
  moreover have "(k, e) \<in> set (cacheMap s)"
    using Some by (rule map_of_SomeD)
  ultimately show ?thesis
    using inv Some
    by (auto simp: PageCache_get_def pc_inv_def total_size_update_item)
qed

lemma pc_inv_clear: "pc_inv (PageCache_clear s)"
  by (simp add: PageCache_clear_def pc_inv_def)

lemma pc_inv_setMaxSizeBytes: "pc_inv s \<Longrightarrow> pc_inv (PageCache_setMaxSizeBytes sz s)"
  unfolding PageCache_setMaxSizeBytes_def
  by (rule pc_inv_evictIfNecessary) (simp add: pc_inv_def)








subsection \<open>IntelligentCache: the eviction loop\<close>

lemma selectKey_present:
  "selectKey policy now xs \<noteq> [] \<Longrightarrow> map_of xs (selectKey policy now xs) \<noteq> None"
  using selectKey_key [of policy now xs] by (auto simp: map_of_eq_None_iff)

lemma evictLoop_stop:
  "\<not> (currentSizeBytes_ic s > maxSizeBytes_ic s \<and> cacheData s \<noteq> []) \<Longrightarrow> evictLoop clk i s = s"
  by (subst evictLoop.simps) auto

lemma evictLoop_warn:
  "currentSizeBytes_ic s > maxSizeBytes_ic s \<Longrightarrow> cacheData s \<noteq> [] \<Longrightarrow>
   selectKey (evictionPolicy s) (clk i) (cacheData s) = [] \<Longrightarrow>
   evictLoop clk i s = s\<lparr>events := events s @ [no_item_warning]\<rparr>"
  by (subst evictLoop.simps) (simp add: Let_def)

lemma evictLoop_step:
  "currentSizeBytes_ic s > maxSizeBytes_ic s \<Longrightarrow> cacheData s \<noteq> [] \<Longrightarrow>
   selectKey (evictionPolicy s) (clk i) (cacheData s) = k \<Longrightarrow> k \<noteq> [] \<Longrightarrow>
   map_of (cacheData s) k = Some item \<Longrightarrow>
   evictLoop clk i s =
     evictLoop clk (Suc i)
       (s\<lparr>cacheData := erase k (cacheData s),
          currentSizeBytes_ic := currentSizeBytes_ic s - sizeBytes item,
          events := events s @ [Log Debug ''Evicted item from cache'',
                                itemRemoved k (sizeBytes item)]\<rparr>)"
  by (subst evictLoop.simps) (simp add: Let_def)

lemma total_bytes_Nil [simp]: "total_bytes [] = 0"
  by (simp add: total_bytes_def)

lemma total_bytes_Cons [simp]: "total_bytes ((k, v) # m) = sizeBytes v + total_bytes m"
  by (simp add: total_bytes_def)

lemma total_bytes_append [simp]: "total_bytes (m @ m') = total_bytes m + total_bytes m'"
  by (simp add: total_bytes_def)

lemma total_bytes_erase:
  "map_of m k = Some v \<Longrightarrow> distinct (map fst m) \<Longrightarrow>
   total_bytes (erase k m) = total_bytes m - sizeBytes v"
proof (induction m)
  case Nil
  then show ?case by simp
next
  case (Cons p m)
  obtain k' v' where p: "p = (k', v')" by (cases p)
  show ?case
  proof (cases "k' = k")
    case True
    with Cons.prems p have "v' = v" "k \<notin> fst ` set m" by auto
    then have "erase k m = m" by (simp add: erase_absent)
    then have "erase k (p # m) = m" using True p by (simp add: erase_def)
    with True p \<open>v' = v\<close> show ?thesis by simp
  next
    case False
    with Cons p show ?thesis by (simp add: erase_def)
  qed
qed

lemma total_bytes_update_item:
  "map_of m k = Some v \<Longrightarrow>
   total_bytes (update_item k f m) = total_bytes m - sizeBytes v + sizeBytes (f v)"
  by (induction m) auto


text \<open>
  What one run of the loop guarantees: it keeps the invariant and the settings, only removes
  entries and only appends events; and it ends within the budget, or with an empty table,
  or by the branch that logs the warning and leaves the cache over budget.
\<close>

lemma evictLoop_props:
  "ic_inv s \<Longrightarrow>
   ic_inv (evictLoop clk i s)
   \<and> maxSizeBytes_ic (evictLoop clk i s) = maxSizeBytes_ic s
   \<and> evictionPolicy (evictLoop clk i s) = evictionPolicy s
   \<and> set (cacheData (evictLoop clk i s)) \<subseteq> set (cacheData s)
   \<and> (\<exists>ev. events (evictLoop clk i s) = events s @ ev
         \<and> (currentSizeBytes_ic (evictLoop clk i s) \<le> maxSizeBytes_ic s
              \<and> no_item_warning \<notin> set ev
            \<or> cacheData (evictLoop clk i s) = [] \<and> no_item_warning \<notin> set ev
            \<or> maxSizeBytes_ic s < currentSizeBytes_ic (evictLoop clk i s)
              \<and> cacheData (evictLoop clk i s) \<noteq> [] \<and> ev \<noteq> [] \<and> last ev = no_item_warning))"
proof (induction clk i s rule: evictLoop.induct)
  case (1 clk i s)
  show ?case
  proof (cases "currentSizeBytes_ic s > maxSizeBytes_ic s \<and> cacheData s \<noteq> []")
    case False
    then have "evictLoop clk i s = s" by (rule evictLoop_stop)
    with False "1.prems" show ?thesis by auto
  next
    case True
    let ?k = "selectKey (evictionPolicy s) (clk i) (cacheData s)"
    show ?thesis
    proof (cases "?k = []")
      case empty: True
      with True have "evictLoop clk i s = s\<lparr>events := events s @ [no_item_warning]\<rparr>"
        by (simp add: evictLoop_warn)
      with True "1.prems" show ?thesis by (simp add: ic_inv_def)
    next
      case nonempty: False
      then obtain item where item: "map_of (cacheData s) ?k = Some item"
        using selectKey_present [of "evictionPolicy s" "clk i" "cacheData s"] by auto
      let ?s' = "s\<lparr>cacheData := erase ?k (cacheData s),
          currentSizeBytes_ic := currentSizeBytes_ic s - sizeBytes item,
          events := events s @ [Log Debug ''Evicted item from cache'',
                                itemRemoved ?k (sizeBytes item)]\<rparr>"
      have eq: "evictLoop clk i s = evictLoop clk (Suc i) ?s'"
        using True nonempty item by (simp add: evictLoop_step)
      have inv': "ic_inv ?s'"
        using "1.prems" item by (simp add: ic_inv_def distinct_erase total_bytes_erase)
      note IH = "1.IH" [OF True refl nonempty item inv']
      from IH obtain ev where ev: "events (evictLoop clk (Suc i) ?s') = events ?s' @ ev"
        and fin: "currentSizeBytes_ic (evictLoop clk (Suc i) ?s') \<le> maxSizeBytes_ic ?s'
              \<and> no_item_warning \<notin> set ev
            \<or> cacheData (evictLoop clk (Suc i) ?s') = [] \<and> no_item_warning \<notin> set ev
            \<or> maxSizeBytes_ic ?s' < currentSizeBytes_ic (evictLoop clk (Suc i) ?s')
              \<and> cacheData (evictLoop clk (Suc i) ?s') \<noteq> [] \<and> ev \<noteq> [] \<and> last ev = no_item_warning"
        by blast
      let ?ev = "[Log Debug ''Evicted item from cache'', itemRemoved ?k (sizeBytes item)] @ ev"
      have "events (evictLoop clk i s) = events s @ ?ev"
        using ev eq by simp
      moreover have "no_item_warning \<notin> set ev \<Longrightarrow> no_item_warning \<notin> set ?ev"
        by (simp add: no_item_warning_def)
      moreover have "ev \<noteq> [] \<Longrightarrow> last ?ev = last ev"
        by simp
      moreover have "set (cacheData (evictLoop clk i s)) \<subseteq> set (cacheData s)"
        using IH eq set_erase_subset [of ?k "cacheData s"] by auto
      ultimately show ?thesis
        using IH fin eq by (intro conjI exI [of _ ?ev]) auto
    qed
  qed
qed

subsection \<open>IntelligentCache: put\<close>

lemma IntelligentCache_put_hint:
  "0 < sizeHint \<Longrightarrow>
   IntelligentCache_put dsize vsize now clk k d sizeHint md s =
     (True,
      (evictLoop clk 0 (put_inserted_ic now k d sizeHint md s))
        \<lparr>events := events (evictLoop clk 0 (put_inserted_ic now k d sizeHint md s)) @
           [cacheSizeChanged
              (currentSizeBytes_ic (evictLoop clk 0 (put_inserted_ic now k d sizeHint md s)))
              (length (cacheData (evictLoop clk 0 (put_inserted_ic now k d sizeHint md s)))),
            itemAdded k sizeHint]\<rparr>)"
  by (simp add: IntelligentCache_put_def put_inserted_ic_def evictIfNeeded_def Let_def)

lemma put_inserted_ic_props:
  assumes "ic_inv s"
  shows "ic_inv (put_inserted_ic now k d itemSize md s)"
    and "maxSizeBytes_ic (put_inserted_ic now k d itemSize md s) = maxSizeBytes_ic s"
    and "\<exists>ev. events (put_inserted_ic now k d itemSize md s) = events s @ ev"
    and "(k, v) \<in> set (cacheData (put_inserted_ic now k d itemSize md s)) \<Longrightarrow>
           sizeBytes v = itemSize"
    and "sizes_nonneg s \<Longrightarrow> 0 \<le> itemSize \<Longrightarrow>
           sizes_nonneg (put_inserted_ic now k d itemSize md s)"
proof -
  show "ic_inv (put_inserted_ic now k d itemSize md s)"
  proof (cases "map_of (cacheData s) k")
    case None
    then have "k \<notin> fst ` set (cacheData s)" by (simp add: map_of_eq_None_iff)
    with assms None show ?thesis
      by (simp add: put_inserted_ic_def ic_inv_def)
  next
    case (Some e)
    with assms show ?thesis
      by (simp add: put_inserted_ic_def ic_inv_def distinct_erase fst_set_erase total_bytes_erase)
  qed
  show "maxSizeBytes_ic (put_inserted_ic now k d itemSize md s) = maxSizeBytes_ic s"
    by (simp add: put_inserted_ic_def split: option.splits)
  show "\<exists>ev. events (put_inserted_ic now k d itemSize md s) = events s @ ev"
    by (simp add: put_inserted_ic_def split: option.splits)
  show "sizeBytes v = itemSize"
    if "(k, v) \<in> set (cacheData (put_inserted_ic now k d itemSize md s))"
  proof (cases "map_of (cacheData s) k")
    case None
    then have "(k, v) \<notin> set (cacheData s)" by (auto simp: map_of_eq_None_iff image_iff)
    with that None show ?thesis by (auto simp: put_inserted_ic_def)
  next
    case (Some e)
    have "(k, v) \<notin> set (erase k (cacheData s))" by (auto simp: erase_def)
    with that Some show ?thesis by (auto simp: put_inserted_ic_def)
  qed
  show "sizes_nonneg (put_inserted_ic now k d itemSize md s)"
    if "sizes_nonneg s" "0 \<le> itemSize"
    using that set_erase_subset [of k "cacheData s"]
    by (auto simp: put_inserted_ic_def sizes_nonneg_def list_all_iff split: option.splits)
qed


text \<open>
  Every entry that the loop removes is announced by an \<open>itemRemoved\<close> event with its key
  and size.
\<close>

lemma evictLoop_events: "\<exists>ev. events (evictLoop clk i s) = events s @ ev"
proof (induction clk i s rule: evictLoop.induct)
  case (1 clk i s)
  show ?case
  proof (cases "currentSizeBytes_ic s > maxSizeBytes_ic s \<and> cacheData s \<noteq> []")
    case False
    then show ?thesis by (simp add: evictLoop_stop)
  next
    case True
    let ?k = "selectKey (evictionPolicy s) (clk i) (cacheData s)"
    show ?thesis
    proof (cases "?k = []")
      case empty: True
      with True show ?thesis by (simp add: evictLoop_warn)
    next
      case nonempty: False
      then obtain item where item: "map_of (cacheData s) ?k = Some item"
        using selectKey_present [of "evictionPolicy s" "clk i" "cacheData s"] by auto
      from "1.IH" [OF True refl nonempty item] True nonempty item show ?thesis
        by (auto simp: evictLoop_step)
    qed
  qed
qed

lemma evictLoop_removed:
  "map_of (cacheData s) k = Some v \<Longrightarrow> map_of (cacheData (evictLoop clk i s)) k = None \<Longrightarrow>
   \<exists>ev. events (evictLoop clk i s) = events s @ ev \<and> itemRemoved k (sizeBytes v) \<in> set ev"
proof (induction clk i s rule: evictLoop.induct)
  case (1 clk i s)
  show ?case
  proof (cases "currentSizeBytes_ic s > maxSizeBytes_ic s \<and> cacheData s \<noteq> []")
    case False
    then have "evictLoop clk i s = s" by (rule evictLoop_stop)
    with "1.prems" show ?thesis by simp
  next
    case True
    let ?k = "selectKey (evictionPolicy s) (clk i) (cacheData s)"
    show ?thesis
    proof (cases "?k = []")
      case empty: True
      with True have "evictLoop clk i s = s\<lparr>events := events s @ [no_item_warning]\<rparr>"
        by (simp add: evictLoop_warn)
      with "1.prems" show ?thesis by simp
    next
      case nonempty: False
      then obtain item where item: "map_of (cacheData s) ?k = Some item"
        using selectKey_present [of "evictionPolicy s" "clk i" "cacheData s"] by auto
      let ?s' = "s\<lparr>cacheData := erase ?k (cacheData s),
          currentSizeBytes_ic := currentSizeBytes_ic s - sizeBytes item,
          events := events s @ [Log Debug ''Evicted item from cache'',
                                itemRemoved ?k (sizeBytes item)]\<rparr>"
      have eq: "evictLoop clk i s = evictLoop clk (Suc i) ?s'"
        using True nonempty item by (simp add: evictLoop_step)
      show ?thesis
      proof (cases "?k = k")
        case same: True
        with item "1.prems"(1) have "item = v" by simp
        moreover obtain ev where "events (evictLoop clk (Suc i) ?s') = events ?s' @ ev"
          using evictLoop_events by blast
        ultimately show ?thesis
          using eq same by simp
      next
        case other: False
        then have "map_of (cacheData ?s') k = Some v"
          using "1.prems"(1) by (simp add: map_of_erase)
        moreover have "map_of (cacheData (evictLoop clk (Suc i) ?s')) k = None"
          using "1.prems"(2) eq by simp
        ultimately obtain ev where "events (evictLoop clk (Suc i) ?s') = events ?s' @ ev"
          and "itemRemoved k (sizeBytes v) \<in> set ev"
          using "1.IH" [OF True refl nonempty item] by blast
        then show ?thesis
          using eq by simp
      qed
    qed
  qed
qed

lemma put_inserted_ic_lookup:
  "map_of (cacheData (put_inserted_ic now k d itemSize md s)) j =
     (if j = k then Some \<lparr>data = d, sizeBytes = itemSize, lastAccessTime = now, creationTime = now,
                          accessCount_ic = 1, priority = 1, key = k, metadata = md\<rparr>
      else map_of (cacheData s) j)"
proof (cases "map_of (cacheData s) k")
  case None
  then have "k \<notin> fst ` set (cacheData s)" by (simp add: map_of_eq_None_iff)
  with None show ?thesis
    by (auto simp: put_inserted_ic_def map_add_def split: option.splits)
next
  case (Some e)
  have "map_of (erase k (cacheData s)) k = None" by (simp add: map_of_erase)
  with Some show ?thesis
    by (auto simp: put_inserted_ic_def map_add_def map_of_erase split: option.splits)
qed


lemma IntelligentCache_put_eq:
  "\<exists>n. (0 < sizeHint \<longrightarrow> n = sizeHint)
     \<and> IntelligentCache_put dsize vsize now clk k d sizeHint md s =
         (True,
          (evictLoop clk 0 (put_inserted_ic now k d n md s))
            \<lparr>events := events (evictLoop clk 0 (put_inserted_ic now k d n md s)) @
               [cacheSizeChanged
                  (currentSizeBytes_ic (evictLoop clk 0 (put_inserted_ic now k d n md s)))
                  (length (cacheData (evictLoop clk 0 (put_inserted_ic now k d n md s)))),
                itemAdded k n]\<rparr>)"
  by (rule exI [of _ "if sizeHint > 0 then sizeHint
             else calculateItemSizeBytes dsize vsize
                    \<lparr>data = d, sizeBytes = 0, lastAccessTime = 0, creationTime = 0,
                     accessCount_ic = 0, priority = 0, key = k, metadata = md\<rparr>"])
    (simp add: IntelligentCache_put_def put_inserted_ic_def evictIfNeeded_def Let_def)

lemma inserted_then_removed:
  assumes gone: "map_of (cacheData (evictLoop clk 0 (put_inserted_ic now k d n md s))) j = None"
    and was: "map_of (cacheData (put_inserted_ic now k d n md s)) j = Some e"
  shows "itemRemoved j (sizeBytes e) \<in> set (drop (length (events s))
           (events (evictLoop clk 0 (put_inserted_ic now k d n md s))))"
proof -
  let ?s2 = "put_inserted_ic now k d n md s"
  from was gone obtain ev where ev: "events (evictLoop clk 0 ?s2) = events ?s2 @ ev"
    and rem: "itemRemoved j (sizeBytes e) \<in> set ev"
    using evictLoop_removed by blast
  have "\<exists>ev0. events ?s2 = events s @ ev0"
    by (simp add: put_inserted_ic_def split: option.splits)
  then obtain ev0 where ev0: "events ?s2 = events s @ ev0" by blast
  show ?thesis
    using rem by (simp add: ev ev0)
qed

subsection \<open>Concrete runs\<close>

lemma ic_scenario_start_eq:
  "ic_scenario_start =
     \<lparr>cacheData = [], maxSizeBytes_ic = 1000000, currentSizeBytes_ic = 0, evictionPolicy = LRU,
      events = [Log Info ''Cache max size changed'', cacheSizeChanged 0 0]\<rparr>"
  by (simp add: ic_scenario_start_def IntelligentCache_setMaxSizeBytes_def IntelligentCache_new_def
      evictIfNeeded_def evictLoop_stop)

lemma ic_scenario_start_inv:
  "ic_inv ic_scenario_start \<and> sizes_nonneg ic_scenario_start
     \<and> 0 \<le> maxSizeBytes_ic ic_scenario_start"
  by (simp add: ic_scenario_start_eq ic_inv_def sizes_nonneg_def)

lemma scenario_start_inv: "pc_inv scenario_start \<and> 0 \<le> maxSizeBytes scenario_start"
  by (simp add: scenario_start_eq pc_inv_def)


text \<open>
  An item of 2,000,000 bytes put into the empty 1,000,000-byte \<open>IntelligentCache\<close> (LRU).
  When the eviction pass reads a later clock value than the one stored in the item, the item
  is the oldest entry and is evicted again.
\<close>

lemma ic_put_big_later_clock:
  "IntelligentCache_put dsize vsize 10 (\<lambda>i. 11) ''big'' d 2000000 [] ic_scenario_start =
     (True,
      \<lparr>cacheData = [], maxSizeBytes_ic = 1000000, currentSizeBytes_ic = 0, evictionPolicy = LRU,
       events = [Log Info ''Cache max size changed'', cacheSizeChanged 0 0,
                 Log Debug ''Evicted item from cache'', itemRemoved ''big'' 2000000,
                 cacheSizeChanged 0 0, itemAdded ''big'' 2000000]\<rparr>)"
proof -
  have "evictLoop (\<lambda>i. 11) 0 (put_inserted_ic 10 ''big'' d 2000000 [] ic_scenario_start) =
      \<lparr>cacheData = [], maxSizeBytes_ic = 1000000, currentSizeBytes_ic = 0, evictionPolicy = LRU,
       events = [Log Info ''Cache max size changed'', cacheSizeChanged 0 0,
                 Log Debug ''Evicted item from cache'', itemRemoved ''big'' 2000000]\<rparr>"
    by (subst evictLoop.simps)
      (simp add: put_inserted_ic_def ic_scenario_start_eq selectKey_def erase_def
        evictLoop_stop)
  then show ?thesis
    by (simp add: IntelligentCache_put_hint)
qed

text \<open>
  When the eviction pass reads the same millisecond as the one stored in the item, no entry is
  strictly older than the reading: the scan returns the empty key, the warning is logged and
  the item stays, over budget.
\<close>

lemma ic_put_big_same_clock:
  "IntelligentCache_put dsize vsize 10 (\<lambda>i. 10) ''big'' d 2000000 [] ic_scenario_start =
     (True,
      \<lparr>cacheData = [(''big'', \<lparr>data = d, sizeBytes = 2000000, lastAccessTime = 10,
                               creationTime = 10, accessCount_ic = 1, priority = 1,
                               key = ''big'', metadata = []\<rparr>)],
       maxSizeBytes_ic = 1000000, currentSizeBytes_ic = 2000000, evictionPolicy = LRU,
       events = [Log Info ''Cache max size changed'', cacheSizeChanged 0 0,
                 no_item_warning, cacheSizeChanged 2000000 1, itemAdded ''big'' 2000000]\<rparr>)"
proof -
  have "evictLoop (\<lambda>i. 10) 0 (put_inserted_ic 10 ''big'' d 2000000 [] ic_scenario_start) =
      \<lparr>cacheData = [(''big'', \<lparr>data = d, sizeBytes = 2000000, lastAccessTime = 10,
                               creationTime = 10, accessCount_ic = 1, priority = 1,
                               key = ''big'', metadata = []\<rparr>)],
       maxSizeBytes_ic = 1000000, currentSizeBytes_ic = 2000000, evictionPolicy = LRU,
       events = [Log Info ''Cache max size changed'', cacheSizeChanged 0 0, no_item_warning]\<rparr>"
    by (subst evictLoop.simps)
      (simp add: put_inserted_ic_def ic_scenario_start_eq selectKey_def)
  then show ?thesis
    by (simp add: IntelligentCache_put_hint)
qed




lemma ic_scenario_one_eq:
  "ic_scenario_one =
     \<lparr>cacheData = [(''a'', \<lparr>data = VString ''x'', sizeBytes = 400000, lastAccessTime = 1,
                             creationTime = 1, accessCount_ic = 1, priority = 1,
                             key = ''a'', metadata = []\<rparr>)],
      maxSizeBytes_ic = 1000000, currentSizeBytes_ic = 400000, evictionPolicy = LRU,
      events = [Log Info ''Cache max size changed'', cacheSizeChanged 0 0,
                cacheSizeChanged 400000 1, itemAdded ''a'' 400000]\<rparr>"
proof -
  have "evictLoop (\<lambda>i. 2) 0 (put_inserted_ic 1 ''a'' (VString ''x'') 400000 [] ic_scenario_start) =
      \<lparr>cacheData = [(''a'', \<lparr>data = VString ''x'', sizeBytes = 400000, lastAccessTime = 1,
                             creationTime = 1, accessCount_ic = 1, priority = 1,
                             key = ''a'', metadata = []\<rparr>)],
       maxSizeBytes_ic = 1000000, currentSizeBytes_ic = 400000, evictionPolicy = LRU,
       events = [Log Info ''Cache max size changed'', cacheSizeChanged 0 0]\<rparr>"
    by (simp add: put_inserted_ic_def ic_scenario_start_eq evictLoop_stop)
  then show ?thesis
    by (simp add: ic_scenario_one_def IntelligentCache_put_hint)
qed

lemma ic_put_big_nonempty:
  "IntelligentCache_put dsize vsize 10 (\<lambda>i. 11) ''big'' d 2000000 [] ic_scenario_one =
     (True,
      \<lparr>cacheData = [], maxSizeBytes_ic = 1000000, currentSizeBytes_ic = 0, evictionPolicy = LRU,
       events = [Log Info ''Cache max size changed'', cacheSizeChanged 0 0,
                 cacheSizeChanged 400000 1, itemAdded ''a'' 400000,
                 Log Debug ''Evicted item from cache'', itemRemoved ''a'' 400000,
                 Log Debug ''Evicted item from cache'', itemRemoved ''big'' 2000000,
                 cacheSizeChanged 0 0, itemAdded ''big'' 2000000]\<rparr>)"
proof -
  have s2: "put_inserted_ic 10 ''big'' d 2000000 [] ic_scenario_one =
      \<lparr>cacheData = [(''a'', \<lparr>data = VString ''x'', sizeBytes = 400000, lastAccessTime = 1,
                             creationTime = 1, accessCount_ic = 1, priority = 1,
                             key = ''a'', metadata = []\<rparr>),
                    (''big'', \<lparr>data = d, sizeBytes = 2000000, lastAccessTime = 10,
                               creationTime = 10, accessCount_ic = 1, priority = 1,
                               key = ''big'', metadata = []\<rparr>)],
       maxSizeBytes_ic = 1000000, currentSizeBytes_ic = 2400000, evictionPolicy = LRU,
       events = [Log Info ''Cache max size changed'', cacheSizeChanged 0 0,
                 cacheSizeChanged 400000 1, itemAdded ''a'' 400000]\<rparr>"
    by (simp add: put_inserted_ic_def ic_scenario_one_eq)
  have "evictLoop (\<lambda>i. 11) 0 (put_inserted_ic 10 ''big'' d 2000000 [] ic_scenario_one) =
      \<lparr>cacheData = [], maxSizeBytes_ic = 1000000, currentSizeBytes_ic = 0, evictionPolicy = LRU,
       events = [Log Info ''Cache max size changed'', cacheSizeChanged 0 0,
                 cacheSizeChanged 400000 1, itemAdded ''a'' 400000,
                 Log Debug ''Evicted item from cache'', itemRemoved ''a'' 400000,
                 Log Debug ''Evicted item from cache'', itemRemoved ''big'' 2000000]\<rparr>"
    unfolding s2
    by (subst evictLoop.simps, simp add: selectKey_def erase_def Let_def)
      (subst evictLoop.simps, simp add: selectKey_def erase_def evictLoop_stop Let_def)
  then show ?thesis
    by (simp add: IntelligentCache_put_hint)
qed


subsection \<open>C2: a put larger than the budget\<close>




subsection \<open>C10: IntelligentCache::put always returns true\<close>

text \<open>
  C10: \<open>IntelligentCache::put\<close> returns true for every key, value, size hint and metadata map
  and in every state, and its last event is \<open>itemAdded\<close> for the key, with the size hint as
  size when one is given. A true return does not mean that the item is present afterwards:
  whenever the key is absent when \<open>put\<close> returns, the item had been inserted and was removed
  again by the eviction pass of the same call, which the \<open>itemRemoved\<close> event for the key,
  emitted during the call, records. The two runs put a 2,000,000-byte item into the cache
  with a 1,000,000-byte budget (LRU, the eviction pass reading a later clock value than the
  one stored in the item), once into the empty cache and once into the cache that already
  holds a 400,000-byte entry: \<open>put\<close> returns true, the events show the item inserted,
  evicted and announced as added, and the cache is empty afterwards.
\<close>

theorem C10_put_returns_true:
  "fst (IntelligentCache_put dsize vsize now clk k d sizeHint md s) = True
   \<and> (\<exists>n. last (events (snd (IntelligentCache_put dsize vsize now clk k d sizeHint md s)))
            = itemAdded k n
          \<and> (0 < sizeHint \<longrightarrow> n = sizeHint)
          \<and> (\<not> IntelligentCache_contains
                  (snd (IntelligentCache_put dsize vsize now clk k d sizeHint md s)) k \<longrightarrow>
               itemRemoved k n \<in> set (drop (length (events s))
                 (events (snd (IntelligentCache_put dsize vsize now clk k d sizeHint md s))))))
   \<and> IntelligentCache_put dsize vsize 10 (\<lambda>i. 11) ''big'' d 2000000 [] ic_scenario_start =
       (True,
        \<lparr>cacheData = [], maxSizeBytes_ic = 1000000, currentSizeBytes_ic = 0,
         evictionPolicy = LRU,
         events = [Log Info ''Cache max size changed'', cacheSizeChanged 0 0,
                   Log Debug ''Evicted item from cache'', itemRemoved ''big'' 2000000,
                   cacheSizeChanged 0 0, itemAdded ''big'' 2000000]\<rparr>)
   \<and> IntelligentCache_put dsize vsize 10 (\<lambda>i. 11) ''big'' d 2000000 [] ic_scenario_one =
       (True,
        \<lparr>cacheData = [], maxSizeBytes_ic = 1000000, currentSizeBytes_ic = 0,
         evictionPolicy = LRU,
         events = [Log Info ''Cache max size changed'', cacheSizeChanged 0 0,
                   cacheSizeChanged 400000 1, itemAdded ''a'' 400000,
                   Log Debug ''Evicted item from cache'', itemRemoved ''a'' 400000,
                   Log Debug ''Evicted item from cache'', itemRemoved ''big'' 2000000,
                   cacheSizeChanged 0 0, itemAdded ''big'' 2000000]\<rparr>)"
proof -
  obtain n where n: "0 < sizeHint \<longrightarrow> n = sizeHint"
    and put: "IntelligentCache_put dsize vsize now clk k d sizeHint md s =
         (True,
          (evictLoop clk 0 (put_inserted_ic now k d n md s))
            \<lparr>events := events (evictLoop clk 0 (put_inserted_ic now k d n md s)) @
               [cacheSizeChanged
                  (currentSizeBytes_ic (evictLoop clk 0 (put_inserted_ic now k d n md s)))
                  (length (cacheData (evictLoop clk 0 (put_inserted_ic now k d n md s)))),
                itemAdded k n]\<rparr>)"
    using IntelligentCache_put_eq [of sizeHint dsize vsize now clk k d md s] by blast
  have was: "map_of (cacheData (put_inserted_ic now k d n md s)) k =
      Some \<lparr>data = d, sizeBytes = n, lastAccessTime = now, creationTime = now,
            accessCount_ic = 1, priority = 1, key = k, metadata = md\<rparr>"
    by (simp add: put_inserted_ic_lookup)
  have removed: "itemRemoved k n \<in> set (drop (length (events s))
          (events (snd (IntelligentCache_put dsize vsize now clk k d sizeHint md s))))"
    if "\<not> IntelligentCache_contains
          (snd (IntelligentCache_put dsize vsize now clk k d sizeHint md s)) k"
  proof -
    from that have "map_of (cacheData (evictLoop clk 0 (put_inserted_ic now k d n md s))) k = None"
      by (simp add: put IntelligentCache_contains_def)
    from inserted_then_removed [OF this was] show ?thesis
      by (simp add: put)
  qed
  have general: "\<exists>n. last (events (snd (IntelligentCache_put dsize vsize now clk k d sizeHint md s)))
            = itemAdded k n
          \<and> (0 < sizeHint \<longrightarrow> n = sizeHint)
          \<and> (\<not> IntelligentCache_contains
                  (snd (IntelligentCache_put dsize vsize now clk k d sizeHint md s)) k \<longrightarrow>
               itemRemoved k n \<in> set (drop (length (events s))
                 (events (snd (IntelligentCache_put dsize vsize now clk k d sizeHint md s)))))"
  proof (intro exI [of _ n] conjI impI)
    show "last (events (snd (IntelligentCache_put dsize vsize now clk k d sizeHint md s)))
        = itemAdded k n"
      by (simp add: put)
  qed (use n removed in simp_all)
  have "fst (IntelligentCache_put dsize vsize now clk k d sizeHint md s) = True"
    by (simp add: put)
  with general show ?thesis
    using ic_put_big_later_clock [of dsize vsize d] ic_put_big_nonempty [of dsize vsize d]
    by blast
qed


theorem C10_put_returns_true_witness:
  "\<not> IntelligentCache_contains
       (snd (IntelligentCache_put (\<lambda>v. 0) (\<lambda>v. 0) 10 (\<lambda>i. 11) ''big'' (VString ''x'') 2000000 []
               ic_scenario_one)) ''big''
   \<and> itemRemoved ''big'' 2000000 \<in> set (drop (length (events ic_scenario_one))
       (events (snd (IntelligentCache_put (\<lambda>v. 0) (\<lambda>v. 0) 10 (\<lambda>i. 11) ''big'' (VString ''x'')
                      2000000 [] ic_scenario_one))))
   \<and> last (events (snd (IntelligentCache_put (\<lambda>v. 0) (\<lambda>v. 0) 10 (\<lambda>i. 11) ''big''
                          (VString ''x'') 2000000 [] ic_scenario_one)))
       = itemAdded ''big'' 2000000
   \<and> fst (IntelligentCache_put (\<lambda>v. 0) (\<lambda>v. 0) 10 (\<lambda>i. 11) ''big'' (VString ''x'') 2000000 []
            ic_scenario_one) = True"
proof -
  note th = C10_put_returns_true [of "\<lambda>v. 0" "\<lambda>v. 0" 10 "\<lambda>i. 11" "''big''" "VString ''x''" 2000000 "[]"
      ic_scenario_one]
  from th have run: "IntelligentCache_put (\<lambda>v. 0) (\<lambda>v. 0) 10 (\<lambda>i. 11) ''big'' (VString ''x'')
        2000000 [] ic_scenario_one =
       (True,
        \<lparr>cacheData = [], maxSizeBytes_ic = 1000000, currentSizeBytes_ic = 0,
         evictionPolicy = LRU,
         events = [Log Info ''Cache max size changed'', cacheSizeChanged 0 0,
                   cacheSizeChanged 400000 1, itemAdded ''a'' 400000,
                   Log Debug ''Evicted item from cache'', itemRemoved ''a'' 400000,
                   Log Debug ''Evicted item from cache'', itemRemoved ''big'' 2000000,
                   cacheSizeChanged 0 0, itemAdded ''big'' 2000000]\<rparr>)"
    by blast
  then have absent: "\<not> IntelligentCache_contains
       (snd (IntelligentCache_put (\<lambda>v. 0) (\<lambda>v. 0) 10 (\<lambda>i. 11) ''big'' (VString ''x'') 2000000 []
               ic_scenario_one)) ''big''"
    by (simp add: IntelligentCache_contains_def)
  from th obtain n where
    "last (events (snd (IntelligentCache_put (\<lambda>v. 0) (\<lambda>v. 0) 10 (\<lambda>i. 11) ''big''
                          (VString ''x'') 2000000 [] ic_scenario_one))) = itemAdded ''big'' n"
    "(0::int) < 2000000 \<longrightarrow> n = 2000000"
    "\<not> IntelligentCache_contains
         (snd (IntelligentCache_put (\<lambda>v. 0) (\<lambda>v. 0) 10 (\<lambda>i. 11) ''big'' (VString ''x'') 2000000 []
                 ic_scenario_one)) ''big'' \<longrightarrow>
     itemRemoved ''big'' n \<in> set (drop (length (events ic_scenario_one))
       (events (snd (IntelligentCache_put (\<lambda>v. 0) (\<lambda>v. 0) 10 (\<lambda>i. 11) ''big'' (VString ''x'')
                      2000000 [] ic_scenario_one))))"
    by blast
  with absent th show ?thesis by simp
qed

subsection \<open>The tracked total is the sum of the stored sizes\<close>

lemma pc_sum_emitted [simp]: "pc_sum (s\<lparr>emitted := e\<rparr>) = pc_sum s"
  by (simp add: pc_sum_def)

lemma pc_sum_dequeue:
  assumes "pc_sum s"
  shows "pc_sum (if PageCache_contains (s\<lparr>lruQueue := q\<rparr>) k
                 then removeItem k (s\<lparr>lruQueue := q\<rparr>) else s\<lparr>lruQueue := q\<rparr>)"
  using assms
  by (auto simp: pc_sum_def removeItem_def total_size_erase distinct_erase split: option.splits)

lemma pc_sum_evictIfNecessary: "pc_sum s \<Longrightarrow> pc_sum (evictIfNecessary s)"
proof (induction s rule: evictIfNecessary.induct)
  case (1 s)
  show ?case
  proof (cases "currentSizeBytes s > maxSizeBytes s \<and> lruQueue s \<noteq> []")
    case False
    with "1.prems" show ?thesis by (simp add: evictIfNecessary_stop)
  next
    case True
    then obtain k q where q: "lruQueue s = k # q" by (cases "lruQueue s") auto
    let ?s' = "if PageCache_contains (s\<lparr>lruQueue := q\<rparr>) k
               then removeItem k (s\<lparr>lruQueue := q\<rparr>) else s\<lparr>lruQueue := q\<rparr>"
    have "pc_sum ?s'" using "1.prems" by (rule pc_sum_dequeue)
    with "1.IH" [OF True, of k "s\<lparr>lruQueue := q\<rparr>"] q have "pc_sum (evictIfNecessary ?s')"
      by simp
    with True q show ?thesis by (simp add: evictIfNecessary_step)
  qed
qed

lemma pc_sum_put: "pc_sum s \<Longrightarrow> pc_sum (PageCache_put now k img s)"
proof (cases "calculateImageSizeBytes img = 0")
  case True
  assume "pc_sum s"
  with True show ?thesis by (simp add: PageCache_put_def)
next
  case False
  assume inv: "pc_sum s"
  have "pc_sum (put_inserted now k img s)"
  proof (cases "map_of (cacheMap s) k")
    case None
    then have "k \<notin> fst ` set (cacheMap s)" by (simp add: map_of_eq_None_iff)
    with inv show ?thesis
      by (simp add: put_inserted_None [OF None] pc_sum_def)
  next
    case (Some e)
    with inv show ?thesis
      by (simp add: put_inserted_Some [OF Some] pc_sum_def total_size_update_item [OF Some])
  qed
  then have "pc_sum (evictIfNecessary (put_inserted now k img s))"
    by (rule pc_sum_evictIfNecessary)
  with False show ?thesis by (simp add: PageCache_put_eq)
qed

lemma pc_sum_get: "pc_sum s \<Longrightarrow> pc_sum (snd (PageCache_get now k s))"
proof (cases "map_of (cacheMap s) k")
  case None
  assume "pc_sum s"
  with None show ?thesis by (simp add: PageCache_get_def)
next
  case (Some e)
  assume "pc_sum s"
  with Some show ?thesis
    by (simp add: PageCache_get_def pc_sum_def total_size_update_item [OF Some])
qed

lemma clearLoop_sum:
  "clearLoop d kept rest q cur = Inr (m, q', cur') \<Longrightarrow> distinct (map fst (kept @ rest)) \<Longrightarrow>
   cur = total_size (kept @ rest) \<Longrightarrow> distinct (map fst m) \<and> cur' = total_size m"
proof (induction d kept rest q cur rule: clearLoop.induct)
  case (1 d kept q cur)
  then show ?case by auto
next
  case (2 d kept k v rest q cur)
  show ?case
  proof (cases "documentId k = d")
    case True
    with "2.prems"(1) obtain k' v' rest' where rest: "rest = (k', v') # rest'"
      by (cases rest) auto
    from "2.prems"(1) True rest
    have run: "clearLoop d kept rest (removeAll_q k' q)
        (cur - calculateImageSizeBytes (item_image v)) = Inr (m, q', cur')"
      by simp
    from "2.prems"(2) have d: "distinct (map fst (kept @ rest))" by auto
    from "2.prems"(3) have c: "cur - calculateImageSizeBytes (item_image v)
        = total_size (kept @ rest)"
      by simp
    from "2.IH"(1) [OF True rest refl run d c] show ?thesis .
  next
    case False
    with "2.prems"(1) have run: "clearLoop d (kept @ [(k, v)]) rest q cur = Inr (m, q', cur')"
      by simp
    from "2.prems"(2) have d: "distinct (map fst ((kept @ [(k, v)]) @ rest))" by simp
    from "2.prems"(3) have c: "cur = total_size ((kept @ [(k, v)]) @ rest)" by simp
    from "2.IH"(2) [OF False run d c] show ?thesis .
  qed
qed

lemma pc_sum_clearForDocument:
  "pc_sum s \<Longrightarrow> PageCache_clearForDocument d s = Inr s' \<Longrightarrow> pc_sum s'"
proof -
  assume inv: "pc_sum s" and run: "PageCache_clearForDocument d s = Inr s'"
  from run obtain m q cur
    where loop: "clearLoop d [] (cacheMap s) (lruQueue s) (currentSizeBytes s) = Inr (m, q, cur)"
      and s': "s' = s\<lparr>cacheMap := m, lruQueue := q, currentSizeBytes := cur,
                 emitted := emitted s @ [(cur, length m)]\<rparr>"
    by (auto simp: PageCache_clearForDocument_def split: sum.splits)
  from clearLoop_sum [OF loop] inv have "distinct (map fst m) \<and> cur = total_size m"
    by (simp add: pc_sum_def)
  with s' show ?thesis by (simp add: pc_sum_def)
qed

text \<open>
  The first half of C4 for \<open>PageCache\<close>: after every sequence of calls that returns, the
  tracked total is the sum of the sizes of the stored images.
\<close>

lemma pc_run_sum: "pc_sum s \<Longrightarrow> pc_run ops s = Inr s' \<Longrightarrow> pc_sum s'"
proof (induction ops arbitrary: s)
  case Nil
  then show ?case by simp
next
  case (Cons x ops)
  from Cons.prems(2) obtain s1 where step: "pc_apply x s = Inr s1" and rest: "pc_run ops s1 = Inr s'"
    by (auto split: sum.splits)
  have "pc_sum s1"
  proof (cases x)
    case (Put now k img)
    with step Cons.prems(1) show ?thesis by (auto simp: pc_sum_put)
  next
    case (Get now k)
    with step Cons.prems(1) show ?thesis by (auto simp: pc_sum_get)
  next
    case Clear
    with step show ?thesis by (auto simp: PageCache_clear_def pc_sum_def)
  next
    case (ClearForDocument d)
    with step Cons.prems(1) show ?thesis by (auto intro: pc_sum_clearForDocument)
  next
    case (SetMaxSizeBytes sz)
    have "pc_sum (s\<lparr>maxSizeBytes := sz\<rparr>)" using Cons.prems(1) by (simp add: pc_sum_def)
    then have "pc_sum (PageCache_setMaxSizeBytes sz s)"
      unfolding PageCache_setMaxSizeBytes_def by (rule pc_sum_evictIfNecessary)
    with step SetMaxSizeBytes show ?thesis by auto
  qed
  from Cons.IH [OF this rest] show ?case .
qed

lemma ic_inv_events [simp]: "ic_inv (s\<lparr>events := e\<rparr>) = ic_inv s"
  by (simp add: ic_inv_def)

lemma ic_inv_evictIfNeeded: "ic_inv s \<Longrightarrow> ic_inv (evictIfNeeded clk s)"
  using evictLoop_props [of s clk 0] by (simp add: evictIfNeeded_def Let_def)

lemma ic_inv_apply: "ic_inv s \<Longrightarrow> ic_inv (ic_apply dsize vsize x s)"
proof (cases x)
  case (IPut now clk k d sizeHint md)
  assume inv: "ic_inv s"
  let ?n = "if sizeHint > 0 then sizeHint
      else calculateItemSizeBytes dsize vsize
             \<lparr>data = d, sizeBytes = 0, lastAccessTime = 0, creationTime = 0,
              accessCount_ic = 0, priority = 0, key = k, metadata = md\<rparr>"
  have "snd (IntelligentCache_put dsize vsize now clk k d sizeHint md s)
      = (evictIfNeeded clk (put_inserted_ic now k d ?n md s))
          \<lparr>events := events (evictIfNeeded clk (put_inserted_ic now k d ?n md s))
             @ [itemAdded k ?n]\<rparr>"
    by (simp add: IntelligentCache_put_def put_inserted_ic_def Let_def)
  moreover have "ic_inv (evictIfNeeded clk (put_inserted_ic now k d ?n md s))"
    using inv by (intro ic_inv_evictIfNeeded put_inserted_ic_props(1))
  ultimately show ?thesis using IPut by simp
next
  case (IGet now k)
  assume "ic_inv s"
  then show ?thesis
    using IGet
    by (cases "map_of (cacheData s) k")
      (simp_all add: IntelligentCache_get_def ic_inv_def total_bytes_update_item)
next
  case (IRemove k)
  assume "ic_inv s"
  then show ?thesis
    using IRemove
    by (cases "map_of (cacheData s) k")
      (simp_all add: IntelligentCache_remove_def ic_inv_def total_bytes_erase distinct_erase)
next
  case IClear
  then show ?thesis by (simp add: IntelligentCache_clear_def ic_inv_def)
next
  case (ISetMaxSizeBytes clk sz)
  assume inv: "ic_inv s"
  then have "ic_inv (s\<lparr>maxSizeBytes_ic := sz,
      events := events s @ [Log Info ''Cache max size changed'']\<rparr>)"
    by (simp add: ic_inv_def)
  then have "ic_inv (evictIfNeeded clk (s\<lparr>maxSizeBytes_ic := sz,
      events := events s @ [Log Info ''Cache max size changed'']\<rparr>))"
    by (rule ic_inv_evictIfNeeded)
  with inv ISetMaxSizeBytes show ?thesis
    by (simp add: IntelligentCache_setMaxSizeBytes_def)
next
  case (ISetEvictionPolicy policy)
  assume "ic_inv s"
  with ISetEvictionPolicy show ?thesis by (simp add: setEvictionPolicy_def ic_inv_def)
next
  case (IHintAccess now k)
  assume "ic_inv s"
  then show ?thesis
    using IHintAccess
    by (cases "map_of (cacheData s) k")
      (simp_all add: hintAccess_def ic_inv_def total_bytes_update_item)
qed

text \<open>
  The first half of C4 for \<open>IntelligentCache\<close>: after every sequence of calls the tracked
  total is the sum of the sizes of the stored items.
\<close>

lemma ic_run_sum: "ic_inv s \<Longrightarrow> ic_inv (ic_run dsize vsize ops s)"
  unfolding ic_run_def by (induction ops arbitrary: s) (simp_all add: ic_inv_apply)

subsection \<open>C4: the byte budget after clearForDocument\<close>

text \<open>
  C4 says that after every operation the tracked total is the sum of the stored sizes and
  does not exceed the budget. The sum part holds (\<open>pc_run_sum\<close>, \<open>ic_run_sum\<close>). The
  budget part is broken by
  \<open>PageCache::clearForDocument\<close>, which removes from the LRU queue the key of the entry
  after the erased one. Four 400,000-byte pages, of documents 1, 2, 1, 2, are put into a
  fresh cache; document 1 is cleared; the budget is lowered to 500,000 bytes. The two pages of
  document 2 have lost their queue entries, the queue holds the two stale keys of document
  1, and the eviction loop runs out of queue with 800,000 bytes stored, although each
  entry alone fits the budget.
\<close>

theorem C4_clearForDocument_breaks_budget:
  "PageCache_clearForDocument 1
     (put_sequence [(1, page_key 1 0, image400k), (2, page_key 2 0, image400k),
                    (3, page_key 1 1, image400k), (4, page_key 2 1, image400k)] PageCache_new)
   = Inr \<lparr>cacheMap = [(page_key 2 0, new_item image400k 2), (page_key 2 1, new_item image400k 4)],
          lruQueue = [page_key 1 0, page_key 1 1],
          maxSizeBytes = 52428800, currentSizeBytes = 800000,
          emitted = [(400000, 1), (800000, 2), (1200000, 3), (1600000, 4), (800000, 2)]\<rparr>
   \<and> PageCache_setMaxSizeBytes 500000
       \<lparr>cacheMap = [(page_key 2 0, new_item image400k 2), (page_key 2 1, new_item image400k 4)],
        lruQueue = [page_key 1 0, page_key 1 1],
        maxSizeBytes = 52428800, currentSizeBytes = 800000,
        emitted = [(400000, 1), (800000, 2), (1200000, 3), (1600000, 4), (800000, 2)]\<rparr>
     = \<lparr>cacheMap = [(page_key 2 0, new_item image400k 2), (page_key 2 1, new_item image400k 4)],
        lruQueue = [],
        maxSizeBytes = 500000, currentSizeBytes = 800000,
        emitted = [(400000, 1), (800000, 2), (1200000, 3), (1600000, 4), (800000, 2)]\<rparr>
   \<and> calculateImageSizeBytes image400k < 500000"
proof -
  have puts: "put_sequence [(1, page_key 1 0, image400k), (2, page_key 2 0, image400k),
                    (3, page_key 1 1, image400k), (4, page_key 2 1, image400k)] PageCache_new
      = \<lparr>cacheMap = [(page_key 1 0, new_item image400k 1), (page_key 2 0, new_item image400k 2),
                     (page_key 1 1, new_item image400k 3), (page_key 2 1, new_item image400k 4)],
         lruQueue = [page_key 1 0, page_key 2 0, page_key 1 1, page_key 2 1],
         maxSizeBytes = 52428800, currentSizeBytes = 1600000,
         emitted = [(400000, 1), (800000, 2), (1200000, 3), (1600000, 4)]\<rparr>"
    by (simp add: put_sequence_def PageCache_put_def PageCache_new_def image400k_size
        evictIfNecessary_stop page_key_def new_item_def)
  have clear: "PageCache_clearForDocument 1
      \<lparr>cacheMap = [(page_key 1 0, new_item image400k 1), (page_key 2 0, new_item image400k 2),
                     (page_key 1 1, new_item image400k 3), (page_key 2 1, new_item image400k 4)],
         lruQueue = [page_key 1 0, page_key 2 0, page_key 1 1, page_key 2 1],
         maxSizeBytes = 52428800, currentSizeBytes = 1600000,
         emitted = [(400000, 1), (800000, 2), (1200000, 3), (1600000, 4)]\<rparr>
      = Inr \<lparr>cacheMap = [(page_key 2 0, new_item image400k 2), (page_key 2 1, new_item image400k 4)],
          lruQueue = [page_key 1 0, page_key 1 1],
          maxSizeBytes = 52428800, currentSizeBytes = 800000,
          emitted = [(400000, 1), (800000, 2), (1200000, 3), (1600000, 4), (800000, 2)]\<rparr>"
    by (simp add: PageCache_clearForDocument_def page_key_def new_item_def image400k_size
        removeAll_q_def)
  have shrink: "PageCache_setMaxSizeBytes 500000
       \<lparr>cacheMap = [(page_key 2 0, new_item image400k 2), (page_key 2 1, new_item image400k 4)],
        lruQueue = [page_key 1 0, page_key 1 1],
        maxSizeBytes = 52428800, currentSizeBytes = 800000,
        emitted = [(400000, 1), (800000, 2), (1200000, 3), (1600000, 4), (800000, 2)]\<rparr>
     = \<lparr>cacheMap = [(page_key 2 0, new_item image400k 2), (page_key 2 1, new_item image400k 4)],
        lruQueue = [],
        maxSizeBytes = 500000, currentSizeBytes = 800000,
        emitted = [(400000, 1), (800000, 2), (1200000, 3), (1600000, 4), (800000, 2)]\<rparr>"
    by (simp add: PageCache_setMaxSizeBytes_def evictIfNecessary_step evictIfNecessary_stop
        PageCache_contains_def page_key_def)
  show ?thesis
    unfolding puts clear shrink by (simp add: image400k_size)
qed

text \<open>
  The same loop on the most common call, clearing the only document in the cache: the last
  erase leaves the iterator at \<open>end()\<close>, whose key is then read.
\<close>

lemma clearForDocument_only_document:
  "PageCache_clearForDocument 1 (PageCache_put 1 (page_key 1 0) image400k PageCache_new)
     = Inl EndIteratorDereferenced"
  by (simp add: PageCache_clearForDocument_def PageCache_put_def PageCache_new_def
      image400k_size evictIfNecessary_stop page_key_def)

text \<open>
  A second way past the budget, in \<open>IntelligentCache\<close>: an item stored under the empty key.
  Once it is the entry the scan selects, \<open>keyToEvict.isEmpty()\<close> takes it for "no item
  found", the loop breaks with the warning, and two 600,000-byte items stay in a
  1,000,000-byte cache.
\<close>

lemma IntelligentCache_empty_key_blocks_eviction:
  "snd (IntelligentCache_put dsize vsize 20 (\<lambda>i. 21) ''a'' d 600000 []
          (snd (IntelligentCache_put dsize vsize 10 (\<lambda>i. 11) [] d 600000 [] ic_scenario_start)))
   = \<lparr>cacheData =
         [([], \<lparr>data = d, sizeBytes = 600000, lastAccessTime = 10, creationTime = 10,
                accessCount_ic = 1, priority = 1, key = [], metadata = []\<rparr>),
          (''a'', \<lparr>data = d, sizeBytes = 600000, lastAccessTime = 20, creationTime = 20,
                   accessCount_ic = 1, priority = 1, key = ''a'', metadata = []\<rparr>)],
       maxSizeBytes_ic = 1000000, currentSizeBytes_ic = 1200000, evictionPolicy = LRU,
       events = [Log Info ''Cache max size changed'', cacheSizeChanged 0 0,
                 cacheSizeChanged 600000 1, itemAdded [] 600000,
                 no_item_warning, cacheSizeChanged 1200000 2, itemAdded ''a'' 600000]\<rparr>"
proof -
  have first: "snd (IntelligentCache_put dsize vsize 10 (\<lambda>i. 11) [] d 600000 [] ic_scenario_start)
      = \<lparr>cacheData =
           [([], \<lparr>data = d, sizeBytes = 600000, lastAccessTime = 10, creationTime = 10,
                  accessCount_ic = 1, priority = 1, key = [], metadata = []\<rparr>)],
         maxSizeBytes_ic = 1000000, currentSizeBytes_ic = 600000, evictionPolicy = LRU,
         events = [Log Info ''Cache max size changed'', cacheSizeChanged 0 0,
                   cacheSizeChanged 600000 1, itemAdded [] 600000]\<rparr>"
    by (simp add: IntelligentCache_put_hint put_inserted_ic_def ic_scenario_start_eq
        evictLoop_stop)
  show ?thesis
    unfolding first
    by (simp add: IntelligentCache_put_hint put_inserted_ic_def evictLoop_warn selectKey_def)
qed

subsection \<open>C9: get on a present key\<close>

lemma map_snd_update_item:
  "(\<And>v. f (g v) = f v) \<Longrightarrow> map (f \<circ> snd) (update_item k g m) = map (f \<circ> snd) m"
  by (induction m) auto

lemma PageCache_get_present:
  assumes "map_of (cacheMap s) k = Some it"
  shows "PageCache_get now k s =
     (item_image it,
      s\<lparr>cacheMap := update_item k
            (\<lambda>i. i\<lparr>accessCount := accessCount i + 1, timestamp := now\<rparr>) (cacheMap s),
        lruQueue := removeAll_q k (lruQueue s) @ [k]\<rparr>)"
  using assms by (simp add: PageCache_get_def)

lemma IntelligentCache_get_present:
  assumes "map_of (cacheData c) k = Some it"
  shows "IntelligentCache_get now k c =
     (data it,
      c\<lparr>cacheData := update_item k
            (\<lambda>i. i\<lparr>lastAccessTime := now, accessCount_ic := accessCount_ic i + 1,
                    priority := priority i + 1 / 10\<rparr>) (cacheData c),
        events := events c @ [statisticsChanged]\<rparr>)"
  using assms by (simp add: IntelligentCache_get_def)

text \<open>
  C9: \<open>get\<close> with a key that is present returns the stored value and leaves the keys (and
  their order in the table), every stored value, the tracked byte total and the budget as
  they were. In \<open>PageCache\<close> the entry read differs from before in its access count (one
  more) and its time stamp (the clock reading) only, and every other entry is untouched; in
  \<open>IntelligentCache\<close> the entry read differs in its last access time, its access count and
  its priority (raised by 0.1) only. (The recency order itself changes with it:
  \<open>PageCache\<close> moves the key to the back of its LRU queue.)
\<close>

theorem C9_get_changes_only_access_metadata:
  assumes "map_of (cacheMap s) k = Some it" and "map_of (cacheData c) k' = Some it'"
  shows "fst (PageCache_get now k s) = item_image it
    \<and> map fst (cacheMap (snd (PageCache_get now k s))) = map fst (cacheMap s)
    \<and> map (item_image \<circ> snd) (cacheMap (snd (PageCache_get now k s)))
        = map (item_image \<circ> snd) (cacheMap s)
    \<and> currentSizeBytes (snd (PageCache_get now k s)) = currentSizeBytes s
    \<and> maxSizeBytes (snd (PageCache_get now k s)) = maxSizeBytes s
    \<and> map_of (cacheMap (snd (PageCache_get now k s))) k
        = Some (it\<lparr>accessCount := accessCount it + 1, timestamp := now\<rparr>)
    \<and> (\<forall>k2. k2 \<noteq> k \<longrightarrow>
          map_of (cacheMap (snd (PageCache_get now k s))) k2 = map_of (cacheMap s) k2)
    \<and> fst (IntelligentCache_get now k' c) = data it'
    \<and> map fst (cacheData (snd (IntelligentCache_get now k' c))) = map fst (cacheData c)
    \<and> map (data \<circ> snd) (cacheData (snd (IntelligentCache_get now k' c)))
        = map (data \<circ> snd) (cacheData c)
    \<and> map (sizeBytes \<circ> snd) (cacheData (snd (IntelligentCache_get now k' c)))
        = map (sizeBytes \<circ> snd) (cacheData c)
    \<and> currentSizeBytes_ic (snd (IntelligentCache_get now k' c)) = currentSizeBytes_ic c
    \<and> maxSizeBytes_ic (snd (IntelligentCache_get now k' c)) = maxSizeBytes_ic c
    \<and> map_of (cacheData (snd (IntelligentCache_get now k' c))) k'
        = Some (it'\<lparr>lastAccessTime := now, accessCount_ic := accessCount_ic it' + 1,
                    priority := priority it' + 1 / 10\<rparr>)
    \<and> (\<forall>k2. k2 \<noteq> k' \<longrightarrow>
          map_of (cacheData (snd (IntelligentCache_get now k' c))) k2 = map_of (cacheData c) k2)"
  unfolding PageCache_get_present [OF assms(1)] IntelligentCache_get_present [OF assms(2)]
  using assms
  by (simp add: map_of_update_item map_snd_update_item)

theorem C9_get_changes_only_access_metadata_witness:
  "map_of (cacheMap (PageCache_put 1 (page_key 1 0) image400k scenario_start)) (page_key 1 0)
     = Some (new_item image400k 1)
   \<and> map_of (cacheData (snd (IntelligentCache_put (\<lambda>v. 0) (\<lambda>v. 0) 10 (\<lambda>i. 10) ''big''
         (VString ''x'') 2000000 [] ic_scenario_start))) ''big''
     = Some \<lparr>data = VString ''x'', sizeBytes = 2000000, lastAccessTime = 10,
              creationTime = 10, accessCount_ic = 1, priority = 1,
              key = ''big'', metadata = []\<rparr>
   \<and> fst (PageCache_get 5 (page_key 1 0)
          (PageCache_put 1 (page_key 1 0) image400k scenario_start)) = image400k
   \<and> currentSizeBytes (snd (PageCache_get 5 (page_key 1 0)
          (PageCache_put 1 (page_key 1 0) image400k scenario_start)))
       = currentSizeBytes (PageCache_put 1 (page_key 1 0) image400k scenario_start)
   \<and> fst (IntelligentCache_get 5 ''big''
          (snd (IntelligentCache_put (\<lambda>v. 0) (\<lambda>v. 0) 10 (\<lambda>i. 10) ''big''
             (VString ''x'') 2000000 [] ic_scenario_start))) = VString ''x''
   \<and> map_of (cacheData (snd (IntelligentCache_get 5 ''big''
          (snd (IntelligentCache_put (\<lambda>v. 0) (\<lambda>v. 0) 10 (\<lambda>i. 10) ''big''
             (VString ''x'') 2000000 [] ic_scenario_start))))) ''big''
     = Some \<lparr>data = VString ''x'', sizeBytes = 2000000, lastAccessTime = 5,
              creationTime = 10, accessCount_ic = 2, priority = 11 / 10,
              key = ''big'', metadata = []\<rparr>"
proof -
  have pc: "map_of (cacheMap (PageCache_put 1 (page_key 1 0) image400k scenario_start))
      (page_key 1 0) = Some (new_item image400k 1)"
    by (simp add: PageCache_put_def image400k_size scenario_start_eq evictIfNecessary_stop
        new_item_def)
  have ic: "map_of (cacheData (snd (IntelligentCache_put (\<lambda>v. 0) (\<lambda>v. 0) 10 (\<lambda>i. 10) ''big''
         (VString ''x'') 2000000 [] ic_scenario_start))) ''big''
     = Some \<lparr>data = VString ''x'', sizeBytes = 2000000, lastAccessTime = 10,
              creationTime = 10, accessCount_ic = 1, priority = 1,
              key = ''big'', metadata = []\<rparr>"
    by (simp add: ic_put_big_same_clock)
  from C9_get_changes_only_access_metadata [OF pc ic, of 5] pc ic
  show ?thesis by (simp add: new_item_def)
qed

subsection \<open>C8: canceling a task\<close>

text \<open>
  C8: \<open>Task::cancel\<close> returns true exactly when the task is Queued at the call. Then the
  task becomes Canceled with its cancel flag set, and a later \<open>Task::run\<close> returns at its
  first check without invoking the closure. On a Running, Finished or Canceled task
  \<open>cancel\<close> returns false and leaves the task, state and cancel flag included, as it was;
  the second section of the run of a Running task then still sets it to Finished.
  \<open>ThreadPool::cancelTask\<close> returns false for the null pointer and leaves the pool as it
  is; for a task it returns what \<open>Task::cancel\<close> returns and does to the pool what
  \<open>Task::cancel\<close> does to that task and nothing else: a Queued task becomes Canceled with
  its flag set, a task in another state leaves the pool unchanged, and every other task, the
  task sets and the counters of the pool stay as they are.
\<close>

theorem C8_cancel_only_while_queued:
  "snd (Task_cancel t) = (state t = Queued)
   \<and> (state t = Queued \<longrightarrow>
         state (fst (Task_cancel t)) = Canceled \<and> canceled (fst (Task_cancel t))
         \<and> Task_run now1 now2 (fst (Task_cancel t)) = (fst (Task_cancel t), False))
   \<and> (state t \<noteq> Queued \<longrightarrow> fst (Task_cancel t) = t)
   \<and> (state t = Running \<longrightarrow> state (run_end now2 (fst (Task_cancel t))) = Finished)
   \<and> cancelTask None w = (w, False)
   \<and> snd (cancelTask (Some a) w) = (state (tasks w a) = Queued)
   \<and> fst (cancelTask (Some a) w) = w\<lparr>tasks := (tasks w)(a := fst (Task_cancel (tasks w a)))\<rparr>
   \<and> (state (tasks w a) = Queued \<longrightarrow>
         state (tasks (fst (cancelTask (Some a) w)) a) = Canceled
         \<and> canceled (tasks (fst (cancelTask (Some a) w)) a))
   \<and> (state (tasks w a) \<noteq> Queued \<longrightarrow> fst (cancelTask (Some a) w) = w)
   \<and> (b \<noteq> a \<longrightarrow> tasks (fst (cancelTask (Some a) w)) b = tasks w b)
   \<and> totalCompleted (fst (cancelTask (Some a) w)) = totalCompleted w
   \<and> totalSubmitted (fst (cancelTask (Some a) w)) = totalSubmitted w
   \<and> tasksByState (fst (cancelTask (Some a) w)) = tasksByState w
   \<and> allTasks (fst (cancelTask (Some a) w)) = allTasks w"
  by (simp add: Task_cancel_def Task_run_def run_begin_def run_end_def cancelTask_def)

theorem C8_cancel_only_while_queued_witness:
  "snd (Task_cancel (Task_new True ''job'' Normal 0)) = True
   \<and> state (fst (Task_cancel (Task_new True ''job'' Normal 0))) = Canceled
   \<and> snd (Task_run 1 2 (fst (Task_cancel (Task_new True ''job'' Normal 0)))) = False
   \<and> snd (Task_cancel (fst (run_begin 1 (Task_new True ''job'' Normal 0)))) = False
   \<and> fst (Task_cancel (fst (run_begin 1 (Task_new True ''job'' Normal 0))))
       = fst (run_begin 1 (Task_new True ''job'' Normal 0))
   \<and> state (run_end 2 (fst (Task_cancel (fst (run_begin 1 (Task_new True ''job'' Normal 0))))))
       = Finished
   \<and> snd (cancelTask (Some 7) (submitTask (Some 7) (ThreadPool_new fresh_tasks))) = True
   \<and> state (tasks (fst (cancelTask (Some 7) (submitTask (Some 7) (ThreadPool_new fresh_tasks)))) 7)
       = Canceled
   \<and> tasks (fst (cancelTask (Some 7) (submitTask (Some 7) (ThreadPool_new fresh_tasks)))) 8
       = fresh_tasks 8
   \<and> snd (cancelTask (Some 7)
            (worker_begin 1 7 (submitTask (Some 7) (ThreadPool_new fresh_tasks)))) = False
   \<and> fst (cancelTask (Some 7)
            (worker_begin 1 7 (submitTask (Some 7) (ThreadPool_new fresh_tasks))))
       = worker_begin 1 7 (submitTask (Some 7) (ThreadPool_new fresh_tasks))"
proof -
  let ?w = "submitTask (Some 7) (ThreadPool_new fresh_tasks)"
  have q: "state (Task_new True ''job'' Normal 0) = Queued"
    by (simp add: Task_new_def)
  have r: "state (fst (run_begin 1 (Task_new True ''job'' Normal 0))) = Running"
    by (simp add: Task_new_def run_begin_def)
  have wq: "state (tasks ?w 7) = Queued" "tasks ?w 8 = fresh_tasks 8" "(8::nat) \<noteq> 7"
    by (simp_all add: submitTask_def ThreadPool_new_def fresh_tasks_def Task_new_def)
  have wr: "state (tasks (worker_begin 1 7 ?w) 7) \<noteq> Queued"
    by (simp add: worker_begin_def run_begin_def submitTask_def ThreadPool_new_def
        fresh_tasks_def Task_new_def)
  note a = C8_cancel_only_while_queued [of "Task_new True ''job'' Normal 0" 1 2 ?w 7 8]
  note b = C8_cancel_only_while_queued [of "fst (run_begin 1 (Task_new True ''job'' Normal 0))" 1 2
      "worker_begin 1 7 ?w" 7 8]
  from a q have c1: "snd (Task_cancel (Task_new True ''job'' Normal 0)) = True"
    "state (fst (Task_cancel (Task_new True ''job'' Normal 0))) = Canceled"
    by blast+
  from a q have "Task_run 1 2 (fst (Task_cancel (Task_new True ''job'' Normal 0)))
      = (fst (Task_cancel (Task_new True ''job'' Normal 0)), False)"
    by blast
  then have c1': "snd (Task_run 1 2 (fst (Task_cancel (Task_new True ''job'' Normal 0)))) = False"
    by simp
  from r have r': "state (fst (run_begin 1 (Task_new True ''job'' Normal 0))) \<noteq> Queued"
    by simp
  from b r r' have c2: "snd (Task_cancel (fst (run_begin 1 (Task_new True ''job'' Normal 0)))) = False"
    "fst (Task_cancel (fst (run_begin 1 (Task_new True ''job'' Normal 0))))
       = fst (run_begin 1 (Task_new True ''job'' Normal 0))"
    "state (run_end 2 (fst (Task_cancel (fst (run_begin 1 (Task_new True ''job'' Normal 0))))))
       = Finished"
    by blast+
  from a wq(1) have c3: "snd (cancelTask (Some 7) ?w) = True"
    "state (tasks (fst (cancelTask (Some 7) ?w)) 7) = Canceled"
    by blast+
  from a wq(3) have "tasks (fst (cancelTask (Some 7) ?w)) 8 = tasks ?w 8"
    by blast
  with wq(2) have c3': "tasks (fst (cancelTask (Some 7) ?w)) 8 = fresh_tasks 8"
    by simp
  from b wr have c4: "snd (cancelTask (Some 7) (worker_begin 1 7 ?w)) = False"
    "fst (cancelTask (Some 7) (worker_begin 1 7 ?w)) = worker_begin 1 7 ?w"
    by blast+
  from c1 c1' c2 c3 c3' c4 show ?thesis by (intro conjI)
qed

subsection \<open>C3: waitForDone and the completion counter\<close>

lemma worker_keeps_counters:
  "totalCompleted (worker_begin now a w) = totalCompleted w
   \<and> totalSubmitted (worker_begin now a w) = totalSubmitted w
   \<and> totalCompleted (worker_end now a w) = totalCompleted w
   \<and> totalSubmitted (worker_end now a w) = totalSubmitted w
   \<and> totalCompleted (fst (cancelTask p w)) = totalCompleted w
   \<and> totalSubmitted (fst (cancelTask p w)) = totalSubmitted w"
  by (simp add: worker_begin_def worker_end_def cancelTask_def split: option.splits)

lemma waitLoop_returns_finite:
  assumes "waitLoop elapsed i w msecs = Some r"
  shows "totalCompleted w < totalSubmitted w \<longrightarrow> msecs \<noteq> UINT_MAX_as_int"
proof (rule waitLoop.raw_induct
    [where P = "\<lambda>elapsed i w msecs r. totalCompleted w < totalSubmitted w \<longrightarrow> msecs \<noteq> UINT_MAX_as_int",
      OF _ assms])
  fix f :: "(nat \<Rightarrow> int) \<Rightarrow> nat \<Rightarrow> ThreadPool \<Rightarrow> int \<Rightarrow> int option"
    and e j and v :: ThreadPool and m y
  assume IH: "\<And>e j v m y. f e j v m = Some y \<Longrightarrow>
      totalCompleted v < totalSubmitted v \<longrightarrow> m \<noteq> UINT_MAX_as_int"
    and body: "(if totalCompleted v < totalSubmitted v \<and> (m = UINT_MAX_as_int \<or> 0 < m)
        then f e (Suc j) v (if m \<noteq> UINT_MAX_as_int then m - e j else m)
        else Some m) = Some y"
  show "totalCompleted v < totalSubmitted v \<longrightarrow> m \<noteq> UINT_MAX_as_int"
  proof (intro impI notI)
    assume behind: "totalCompleted v < totalSubmitted v" and inf: "m = UINT_MAX_as_int"
    with body have "f e (Suc j) v UINT_MAX_as_int = Some y" by simp
    from IH [OF this] behind show False by simp
  qed
qed

text \<open>
  With its default argument \<open>waitForDone\<close> never returns on a pool whose completion counter
  is behind, when nobody advances the counter.
\<close>

lemma waitForDone_default_blocks:
  "totalCompleted w < totalSubmitted w \<Longrightarrow> waitForDone elapsed UINT_MAX_as_int w = None"
proof -
  assume behind: "totalCompleted w < totalSubmitted w"
  have "waitLoop elapsed 0 w UINT_MAX_as_int = None"
  proof (cases "waitLoop elapsed 0 w UINT_MAX_as_int")
    case None
    then show ?thesis .
  next
    case (Some r)
    from waitLoop_returns_finite [OF this] behind show ?thesis by simp
  qed
  then show ?thesis by (simp add: waitForDone_def)
qed

text \<open>
  C3 says that once all submitted tasks are terminal, \<open>totalTasksCompleted\<close> equals
  \<open>totalTasksSubmitted\<close> and \<open>waitForDone\<close> returns without waiting for its timeout. The code
  does not do that. One task is submitted and run to its end by a worker: the task is
  Finished, one task has been submitted, none is counted as completed (\<open>Task::run\<close> touches
  only the task, and \<open>updateTaskState\<close> is never called), and \<open>waitForDone(250)\<close>, with 100 ms
  passing per wait, returns only after three waits, 50 ms past its timeout, with the timeout
  warning.
\<close>

theorem C3_finished_task_is_not_counted:
  "state (tasks (worker_end 2 7 (worker_begin 1 7
            (submitTask (Some 7) (ThreadPool_new fresh_tasks)))) 7) = Finished
   \<and> totalSubmitted (worker_end 2 7 (worker_begin 1 7
            (submitTask (Some 7) (ThreadPool_new fresh_tasks)))) = 1
   \<and> totalCompleted (worker_end 2 7 (worker_begin 1 7
            (submitTask (Some 7) (ThreadPool_new fresh_tasks)))) = 0
   \<and> waitForDone (\<lambda>i. 100) 250 (worker_end 2 7 (worker_begin 1 7
            (submitTask (Some 7) (ThreadPool_new fresh_tasks)))) = Some (- 50, True)
   \<and> waitForDone (\<lambda>i. 100) UINT_MAX_as_int (worker_end 2 7 (worker_begin 1 7
            (submitTask (Some 7) (ThreadPool_new fresh_tasks)))) = None"
proof -
  let ?w = "worker_end 2 7 (worker_begin 1 7 (submitTask (Some 7) (ThreadPool_new fresh_tasks)))"
  have st: "state (tasks ?w 7) = Finished"
    by (simp add: worker_end_def worker_begin_def submitTask_def ThreadPool_new_def
        fresh_tasks_def Task_new_def run_begin_def run_end_def)
  have sub: "totalSubmitted ?w = 1"
    by (simp add: worker_keeps_counters submitTask_def ThreadPool_new_def)
  have com: "totalCompleted ?w = 0"
    by (simp add: worker_keeps_counters submitTask_def ThreadPool_new_def)
  have "waitLoop (\<lambda>i. 100) 3 ?w (- 50) = Some (- 50)"
    by (subst waitLoop.simps) (simp add: UINT_MAX_as_int_def)
  then have "waitLoop (\<lambda>i. 100) 2 ?w 50 = Some (- 50)"
    by (subst waitLoop.simps) (simp add: UINT_MAX_as_int_def sub com numeral_3_eq_3)
  then have "waitLoop (\<lambda>i. 100) 1 ?w 150 = Some (- 50)"
    by (subst waitLoop.simps) (simp add: UINT_MAX_as_int_def sub com numeral_2_eq_2)
  then have "waitLoop (\<lambda>i. 100) 0 ?w 250 = Some (- 50)"
    by (subst waitLoop.simps) (simp add: UINT_MAX_as_int_def sub com)
  then have timed: "waitForDone (\<lambda>i. 100) 250 ?w = Some (- 50, True)"
    by (simp add: waitForDone_def)
  have "totalCompleted ?w < totalSubmitted ?w" by (simp add: sub com)
  then have "waitForDone (\<lambda>i. 100) UINT_MAX_as_int ?w = None"
    by (rule waitForDone_default_blocks)
  with st sub com timed show ?thesis by simp
qed

subsection \<open>LazyLoader: sorting and dispatching\<close>


lemma before_rank: "before b a \<longleftrightarrow> rank b < rank a"
  by (auto simp: before_def rank_def less_prod_def)

lemma not_before_rank: "(\<not> before b a) \<longleftrightarrow> rank a \<le> rank b"
  by (simp add: before_rank not_less)

lemma sorted_wrt_rank: "sorted_wrt (\<lambda>a b. \<not> before b a) xs \<longleftrightarrow> sorted (map rank xs)"
  by (simp add: not_before_rank sorted_map)



lemma tie_rank: "(\<not> before k x \<and> \<not> before x k) \<longleftrightarrow> rank k = rank x"
  by (auto simp: before_rank)


lemma stable_sorter_keeps_ties: "keeps_ties stable_sorter"
proof -
  have "filter (\<lambda>x. rank k = rank x) (sort_key rank xs) = filter (\<lambda>x. rank k = rank x) xs"
    for xs :: "LoadRequest list" and k
    using sort_key_stable [of rank "rank k" xs] by (simp add: eq_commute [of "rank k"])
  then show ?thesis
    by (simp add: keeps_ties_def stable_sorter_def tie_rank)
qed



subsection \<open>C6: dispatch order of a batch\<close>

lemma tie_breaking_sorter_sorts: "sorts_queue tie_breaking_sorter"
proof -
  have "sorted (map rank ys)" if "sorted (map (\<lambda>r. (rank r, - int (length (lr_key r)))) ys)"
    for ys :: "LoadRequest list"
    using that unfolding sorted_map
    by (rule sorted_wrt_mono_rel [rotated]) auto
  then show ?thesis
    by (simp add: sorts_queue_def tie_breaking_sorter_def sorted_wrt_rank)
qed







subsection \<open>C7: queueing a key twice\<close>




text \<open>
  What the operator decides: were \<open>operator==\<close> the comparison of all fields, a second
  request for a queued key would be queued as well.
\<close>

lemma queueRequest_fieldwise_equality_requeues:
  "map lr_key (requestQueue (queueRequest (=) stable_sorter 20 (request ''a'' 9)
         (queueRequest (=) stable_sorter 10 (request ''a'' 1) LazyLoader_new)))
   = [''a'', ''a'']"
  by (simp add: queueRequest_def sortQueue_def stable_sorter_def LazyLoader_new_def
      request_def rank_def less_eq_prod_def)

subsection \<open>C5: malformed render requests\<close>

text \<open>
  C5, as the specification states it: a render request with a null page or with a zero or
  negative target size is rejected before it is queued, with an immediate failure result.
  The code refutes it: \<open>submitRequest\<close> checks nothing. After submitting a request with a null
  page to a fresh \<open>RenderThread\<close> the request is in the queue and no result has been
  produced.
\<close>

theorem C5_counterexample:
  "\<not> (null_page_request \<notin> set (rt_requestQueue (submitRequest null_page_request RenderThread_new))
       \<and> completed (submitRequest null_page_request RenderThread_new) \<noteq> [])"
  by (simp add: submitRequest_def RenderThread_new_def)

text \<open>
  C5, amended. \<open>submitRequest\<close> validates nothing: it appends every request to the queue,
  whatever its page and target size, and produces no result. A request with a null page (not
  canceled) is rejected when the worker takes it from the queue: \<open>processRequest\<close> returns
  the failure "Invalid page pointer." with a null image, before anything is rendered, and
  the loop emits that result. A target width or height that is zero or negative is no ground
  for rejection: on a page of valid size the only failures of \<open>processRequest\<close> are those of
  the image buffer and of the painter; a direction that is zero or negative gets the scale
  1, so the request is processed exactly as if it asked for the page's own extent in that
  direction (where that is a whole number of points); and when one direction is zero or
  negative and the other is zero or negative too or at least the page's extent, a page of at
  least half a point each way, whose rounded size fits an \<open>int\<close>, is rendered at its own
  size, rounded, with success, provided the image buffer and the painter are available.
\<close>

theorem C5_malformed_requests_are_queued:
  "submitRequest q s = s\<lparr>rt_requestQueue := rt_requestQueue s @ [q]\<rparr>
   \<and> completed (submitRequest q s) = completed s
   \<and> (\<not> rr_canceled r \<and> page r = None \<longrightarrow>
        processRequest alloc painter_ok pages r = failure (requestId r) ''Invalid page pointer.''
        \<and> run_iteration alloc painter_ok pages (submitRequest r RenderThread_new)
            = Some (RenderThread_new
                     \<lparr>completed := [failure (requestId r) ''Invalid page pointer.'']\<rparr>))
   \<and> (\<not> rr_canceled z \<and> page z = Some p
        \<and> 0 < fst (page_size (pages p)) \<and> 0 < snd (page_size (pages p)) \<longrightarrow>
        errorMessage (processRequest alloc painter_ok pages z)
          \<in> {[], ''Failed to create image buffer.'', ''Failed to initialize painter.''})
   \<and> (page z = Some p \<and> fst (rr_targetSize z) \<le> 0
        \<and> 0 < n \<and> fst (page_size (pages p)) = of_int n \<longrightarrow>
        processRequest alloc painter_ok pages z
          = processRequest alloc painter_ok pages (z\<lparr>rr_targetSize := (n, snd (rr_targetSize z))\<rparr>))
   \<and> (page z = Some p \<and> snd (rr_targetSize z) \<le> 0
        \<and> 0 < m \<and> snd (page_size (pages p)) = of_int m \<longrightarrow>
        processRequest alloc painter_ok pages z
          = processRequest alloc painter_ok pages (z\<lparr>rr_targetSize := (fst (rr_targetSize z), m)\<rparr>))
   \<and> (\<not> rr_canceled z \<and> page z = Some p
        \<and> (fst (rr_targetSize z) \<le> 0
              \<and> (snd (rr_targetSize z) \<le> 0
                   \<or> snd (page_size (pages p)) \<le> of_int (snd (rr_targetSize z)))
            \<or> snd (rr_targetSize z) \<le> 0
              \<and> (fst (rr_targetSize z) \<le> 0
                   \<or> fst (page_size (pages p)) \<le> of_int (fst (rr_targetSize z))))
        \<and> 1 / 2 \<le> fst (page_size (pages p)) \<and> 1 / 2 \<le> snd (page_size (pages p))
        \<and> qRound (fst (page_size (pages p))) \<le> INT_MAX
        \<and> qRound (snd (page_size (pages p))) \<le> INT_MAX
        \<and> alloc (qRound (fst (page_size (pages p)))) (qRound (snd (page_size (pages p)))) \<longrightarrow>
        processRequest alloc True pages z
          = \<lparr>res_requestId = requestId z,
             res_image = Image (qRound (fst (page_size (pages p))))
                               (qRound (snd (page_size (pages p)))) 32,
             success = True, errorMessage = []\<rparr>)"
proof (intro conjI impI)
  show "submitRequest q s = s\<lparr>rt_requestQueue := rt_requestQueue s @ [q]\<rparr>"
    by (simp add: submitRequest_def)
  show "completed (submitRequest q s) = completed s"
    by (simp add: submitRequest_def)
next
  assume "\<not> rr_canceled r \<and> page r = None"
  then have r: "processRequest alloc painter_ok pages r
      = failure (requestId r) ''Invalid page pointer.''"
    by (simp add: processRequest_def)
  then show "processRequest alloc painter_ok pages r
      = failure (requestId r) ''Invalid page pointer.''" .
  from r show "run_iteration alloc painter_ok pages (submitRequest r RenderThread_new)
      = Some (RenderThread_new\<lparr>completed := [failure (requestId r) ''Invalid page pointer.'']\<rparr>)"
    by (simp add: submitRequest_def run_iteration_def RenderThread_new_def)
next
  assume "\<not> rr_canceled z \<and> page z = Some p
        \<and> 0 < fst (page_size (pages p)) \<and> 0 < snd (page_size (pages p))"
  then show "errorMessage (processRequest alloc painter_ok pages z)
          \<in> {[], ''Failed to create image buffer.'', ''Failed to initialize painter.''}"
    by (simp add: processRequest_def Let_def failure_def)
next
  assume "page z = Some p \<and> fst (rr_targetSize z) \<le> 0
        \<and> 0 < n \<and> fst (page_size (pages p)) = of_int n"
  then show "processRequest alloc painter_ok pages z
          = processRequest alloc painter_ok pages (z\<lparr>rr_targetSize := (n, snd (rr_targetSize z))\<rparr>)"
    by (simp add: processRequest_def Let_def)
next
  assume "page z = Some p \<and> snd (rr_targetSize z) \<le> 0
        \<and> 0 < m \<and> snd (page_size (pages p)) = of_int m"
  then show "processRequest alloc painter_ok pages z
          = processRequest alloc painter_ok pages (z\<lparr>rr_targetSize := (fst (rr_targetSize z), m)\<rparr>)"
    by (simp add: processRequest_def Let_def)
next
  let ?w = "fst (page_size (pages p))" and ?h = "snd (page_size (pages p))"
  let ?tw = "fst (rr_targetSize z)" and ?th = "snd (rr_targetSize z)"
  assume a: "\<not> rr_canceled z \<and> page z = Some p
        \<and> (?tw \<le> 0 \<and> (?th \<le> 0 \<or> ?h \<le> of_int ?th)
            \<or> ?th \<le> 0 \<and> (?tw \<le> 0 \<or> ?w \<le> of_int ?tw))
        \<and> 1 / 2 \<le> ?w \<and> 1 / 2 \<le> ?h
        \<and> qRound ?w \<le> INT_MAX \<and> qRound ?h \<le> INT_MAX
        \<and> alloc (qRound ?w) (qRound ?h)"
  then have pos: "0 < qRound ?w" "0 < qRound ?h"
    by (simp_all add: qRound_def)
  from a have sizes: "0 < ?w" "0 < ?h" by simp_all
  define sx where "sx = (if ?tw > 0 then (of_int ?tw / ?w) * 72 / 72 else (1::rat))"
  define sy where "sy = (if ?th > 0 then (of_int ?th / ?h) * 72 / 72 else (1::rat))"
  have "(sx = 1 \<and> 1 \<le> sy) \<or> (sy = 1 \<and> 1 \<le> sx)"
    using a sizes by (auto simp: sx_def sy_def le_divide_eq)
  then have scale: "min sx sy = 1" by auto
  show "processRequest alloc True pages z
          = \<lparr>res_requestId = requestId z,
             res_image = Image (qRound ?w) (qRound ?h) 32,
             success = True, errorMessage = []\<rparr>"
    using a pos sizes scale
    by (simp add: processRequest_def Let_def QImage_create_def sx_def sy_def)
qed


theorem C5_malformed_requests_are_queued_witness:
  "\<not> rr_canceled null_page_request \<and> page null_page_request = None
   \<and> submitRequest null_page_request RenderThread_new
       = RenderThread_new\<lparr>rt_requestQueue := [null_page_request]\<rparr>
   \<and> processRequest (\<lambda>w h. True) True a4_pages null_page_request
       = failure 11 ''Invalid page pointer.''
   \<and> fst (rr_targetSize zero_size_request) \<le> 0 \<and> snd (rr_targetSize zero_size_request) \<le> 0
   \<and> processRequest (\<lambda>w h. True) True a4_pages zero_size_request
       = \<lparr>res_requestId = 12, res_image = Image 595 842 32, success = True, errorMessage = []\<rparr>
   \<and> snd (rr_targetSize negative_height_request) \<le> 0
   \<and> processRequest (\<lambda>w h. True) True a4_pages negative_height_request
       = \<lparr>res_requestId = 14, res_image = Image 595 842 32, success = True, errorMessage = []\<rparr>
   \<and> fst (rr_targetSize zero_width_request) \<le> 0
   \<and> processRequest (\<lambda>w h. True) True a4_pages zero_width_request
       = processRequest (\<lambda>w h. True) True a4_pages
           (zero_width_request\<lparr>rr_targetSize := (595, 421)\<rparr>)
   \<and> errorMessage (processRequest (\<lambda>w h. True) True a4_pages zero_width_request)
       \<in> {[], ''Failed to create image buffer.'', ''Failed to initialize painter.''}"
proof -
  have rounds: "qRound (fst (page_size (a4_pages 7))) = 595"
    "qRound (snd (page_size (a4_pages 7))) = 842"
    by (simp_all add: a4_pages_def qRound_def floor_eq_iff)
  have n: "\<not> rr_canceled null_page_request \<and> page null_page_request = None"
    by (simp add: null_page_request_def)
  have ids: "requestId null_page_request = 11" "requestId zero_size_request = 12"
    "requestId negative_height_request = 14"
    by (simp_all add: null_page_request_def zero_size_request_def negative_height_request_def)
  have page_ok: "1 / 2 \<le> fst (page_size (a4_pages 7)) \<and> 1 / 2 \<le> snd (page_size (a4_pages 7))
      \<and> qRound (fst (page_size (a4_pages 7))) \<le> INT_MAX
      \<and> qRound (snd (page_size (a4_pages 7))) \<le> INT_MAX
      \<and> (\<lambda>w h. True) (qRound (fst (page_size (a4_pages 7)))) (qRound (snd (page_size (a4_pages 7))))"
    unfolding rounds by (simp add: a4_pages_def INT_MAX_def)
  have z0: "\<not> rr_canceled zero_size_request \<and> page zero_size_request = Some 7
      \<and> fst (rr_targetSize zero_size_request) \<le> 0 \<and> snd (rr_targetSize zero_size_request) \<le> 0"
    by (simp add: zero_size_request_def)
  have z1: "\<not> rr_canceled negative_height_request \<and> page negative_height_request = Some 7
      \<and> snd (rr_targetSize negative_height_request) \<le> 0
      \<and> fst (page_size (a4_pages 7)) \<le> of_int (fst (rr_targetSize negative_height_request))"
    by (simp add: negative_height_request_def a4_pages_def)
  have z2: "\<not> rr_canceled zero_width_request \<and> page zero_width_request = Some 7
      \<and> fst (rr_targetSize zero_width_request) \<le> 0 \<and> (0::int) < 595
      \<and> fst (page_size (a4_pages 7)) = of_int 595
      \<and> snd (rr_targetSize zero_width_request) = 421
      \<and> 0 < fst (page_size (a4_pages 7)) \<and> 0 < snd (page_size (a4_pages 7))"
    by (simp add: zero_width_request_def a4_pages_def)
  note t0 = C5_malformed_requests_are_queued [of null_page_request RenderThread_new null_page_request "\<lambda>w h. True" True
      a4_pages zero_size_request 7 595 842]
  note t1 = C5_malformed_requests_are_queued [of null_page_request RenderThread_new null_page_request "\<lambda>w h. True" True
      a4_pages negative_height_request 7 595 842]
  note t2 = C5_malformed_requests_are_queued [of null_page_request RenderThread_new null_page_request "\<lambda>w h. True" True
      a4_pages zero_width_request 7 595 842]
  from t0 have c1: "submitRequest null_page_request RenderThread_new
       = RenderThread_new\<lparr>rt_requestQueue := [null_page_request]\<rparr>"
    by (simp add: RenderThread_new_def)
  from t0 n have "processRequest (\<lambda>w h. True) True a4_pages null_page_request
       = failure (requestId null_page_request) ''Invalid page pointer.''"
    by blast
  then have c2: "processRequest (\<lambda>w h. True) True a4_pages null_page_request
       = failure 11 ''Invalid page pointer.''"
    by (simp add: ids)
  from t0 z0 page_ok have "processRequest (\<lambda>w h. True) True a4_pages zero_size_request
       = \<lparr>res_requestId = requestId zero_size_request,
          res_image = Image (qRound (fst (page_size (a4_pages 7))))
                            (qRound (snd (page_size (a4_pages 7)))) 32,
          success = True, errorMessage = []\<rparr>"
    by blast
  then have c3: "processRequest (\<lambda>w h. True) True a4_pages zero_size_request
       = \<lparr>res_requestId = 12, res_image = Image 595 842 32, success = True, errorMessage = []\<rparr>"
    by (simp add: ids rounds)
  from t1 z1 page_ok have "processRequest (\<lambda>w h. True) True a4_pages negative_height_request
       = \<lparr>res_requestId = requestId negative_height_request,
          res_image = Image (qRound (fst (page_size (a4_pages 7))))
                            (qRound (snd (page_size (a4_pages 7)))) 32,
          success = True, errorMessage = []\<rparr>"
    by blast
  then have c4: "processRequest (\<lambda>w h. True) True a4_pages negative_height_request
       = \<lparr>res_requestId = 14, res_image = Image 595 842 32, success = True, errorMessage = []\<rparr>"
    by (simp add: ids rounds)
  from t2 z2 have "processRequest (\<lambda>w h. True) True a4_pages zero_width_request
       = processRequest (\<lambda>w h. True) True a4_pages
           (zero_width_request\<lparr>rr_targetSize := (595, snd (rr_targetSize zero_width_request))\<rparr>)"
    by blast
  with z2 have c5: "processRequest (\<lambda>w h. True) True a4_pages zero_width_request
       = processRequest (\<lambda>w h. True) True a4_pages
           (zero_width_request\<lparr>rr_targetSize := (595, 421)\<rparr>)"
    by simp
  from t2 z2 have c6: "errorMessage (processRequest (\<lambda>w h. True) True a4_pages zero_width_request)
       \<in> {[], ''Failed to create image buffer.'', ''Failed to initialize painter.''}"
    by blast
  from n z0 z1 z2 c1 c2 c3 c4 c5 c6 show ?thesis by (intro conjI) blast+
qed

end
